theory Spec2Isabelle
  imports Main "HOL-Library.AList" "HOL-Library.Char_ord" "HOL-Library.List_Lexorder"
begin

section \<open>The Qt values the rotation code computes with\<close>

subsection \<open>QString\<close>

text \<open>
  A \<open>QString\<close> is modelled by its UTF-8 encoding, a \<open>string\<close> (in HOL a list of bytes), so
  that \<open>message.toUtf8().size()\<close> is \<open>length message\<close> and the text stream, whose codec is
  UTF-8, writes the very bytes of the model.

  \<open>QString::arg\<close> replaces every occurrence of the lowest-numbered place marker
  (\<open>%1\<close> .. \<open>%99\<close>, optionally \<open>%L1\<close>) by its argument. The scan below follows Qt's
  \<open>findArgEscapes\<close>: after a percent sign an optional \<open>L\<close>, then one or two decimal
  digits; a percent sign followed by anything else is ordinary text. Only ASCII digits
  are digits here, and the locale form \<open>%L\<close> formats like the plain form.
\<close>

definition digitValue :: "char \<Rightarrow> nat option" where
  "digitValue c =
     (let n = (of_char c :: nat) in if 48 \<le> n \<and> n \<le> 57 then Some (n - 48) else None)"

text \<open>The marker that starts right after a percent sign: its number and its length.\<close>

definition escape_at :: "string \<Rightarrow> (nat \<times> nat) option" where
  "escape_at cs =
     (let k = (if cs \<noteq> [] \<and> hd cs = CHR ''L'' then 1 else 0 :: nat); ds = drop k cs in
      if ds = [] then None
      else (case digitValue (hd ds) of
              None \<Rightarrow> None
            | Some e \<Rightarrow>
                (if tl ds = [] then Some (e, k + 1)
                 else (case digitValue (hd (tl ds)) of
                         None \<Rightarrow> Some (e, k + 1)
                       | Some e2 \<Rightarrow> Some (10 * e + e2, k + 2)))))"

datatype piece = Plain char | Marker nat string

fun pieces :: "string \<Rightarrow> piece list" where
  "pieces [] = []"
| "pieces (c # cs) =
     (if c = CHR ''%'' then
        (case escape_at cs of
           None \<Rightarrow> Plain c # pieces cs
         | Some (e, n) \<Rightarrow> Marker e (c # take n cs) # pieces (drop n cs))
      else Plain c # pieces cs)"

fun escapes :: "piece list \<Rightarrow> nat list" where
  "escapes [] = []"
| "escapes (Plain c # ps) = escapes ps"
| "escapes (Marker e t # ps) = e # escapes ps"

fun replace_escapes :: "nat \<Rightarrow> string \<Rightarrow> piece list \<Rightarrow> string" where
  "replace_escapes m a [] = []"
| "replace_escapes m a (Plain c # ps) = c # replace_escapes m a ps"
| "replace_escapes m a (Marker e t # ps) =
     (if e = m then a else t) @ replace_escapes m a ps"

text \<open>With no marker left, Qt warns and returns the string as it is.\<close>

definition QString_arg :: "string \<Rightarrow> string \<Rightarrow> string" where
  "QString_arg s a =
     (case escapes (pieces s) of
        [] \<Rightarrow> s
      | e # es \<Rightarrow> replace_escapes (fold min es e) a (pieces s))"

text \<open>Decimal rendering of an \<open>int\<close> argument, as \<open>arg(int)\<close> and \<open>QString::number\<close> do.\<close>

definition digit_char :: "nat \<Rightarrow> char" where
  "digit_char d = ''0123456789'' ! d"

function digits :: "nat \<Rightarrow> string" where
  "digits n = (if n < 10 then [digit_char n] else digits (n div 10) @ [digit_char (n mod 10)])"
  by pat_completeness auto
termination
  by (relation "measure id") auto

declare digits.simps [simp del]

definition QString_number :: "int \<Rightarrow> string" where
  "QString_number i = (if i < 0 then CHR ''-'' # digits (nat (- i)) else digits (nat i))"

definition QString_arg_int :: "string \<Rightarrow> int \<Rightarrow> string" where
  "QString_arg_int s i = QString_arg s (QString_number i)"

text \<open>\<open>QString::split\<close> with the default \<open>KeepEmptyParts\<close>: never an empty list.\<close>

fun QString_split :: "char \<Rightarrow> string \<Rightarrow> string list" where
  "QString_split sep [] = [[]]"
| "QString_split sep (c # cs) =
     (let r = QString_split sep cs in if c = sep then [] # r else (c # hd r) # tl r)"

subsection \<open>QDate, QTime and QDateTime\<close>

text \<open>
  A date is its Julian day number, as in \<open>QDate\<close>; the conversions are those of Qt's
  Gregorian calendar (C++ \<open>floordiv\<close> is \<open>div\<close> on \<open>int\<close>). A time of day is its
  milliseconds since midnight; an invalid \<open>QTime\<close> is \<open>None\<close>. A \<open>QDateTime\<close> is a local
  date and time; time zones and daylight-saving transitions are not modelled, so a day
  has 86400000 milliseconds.
\<close>

definition julianDayFromDate :: "int \<Rightarrow> int \<Rightarrow> int \<Rightarrow> int" where
  "julianDayFromDate year month day =
     (let year' = (if year < 0 then year + 1 else year);
          a = (14 - month) div 12;
          y = year' + 4800 - a;
          m = month + 12 * a - 3
      in day + (153 * m + 2) div 5 + 365 * y + y div 4 - y div 100 + y div 400 - 32045)"

definition dateFromJulianDay :: "int \<Rightarrow> int \<times> int \<times> int" where
  "dateFromJulianDay julianDay =
     (let a = julianDay + 32044;
          b = (4 * a + 3) div 146097;
          c = a - (146097 * b) div 4;
          d = (4 * c + 3) div 1461;
          e = c - (1461 * d) div 4;
          m = (5 * e + 2) div 153;
          day = e - (153 * m + 2) div 5 + 1;
          month = m + 3 - 12 * (m div 10);
          year = 100 * b + d - 4800 + m div 10
      in (if year \<le> 0 then year - 1 else year, month, day))"

record QDateTime =
  julianDay :: int
  msecsOfDay :: int

definition QDate_year :: "QDateTime \<Rightarrow> int" where
  "QDate_year dt = fst (dateFromJulianDay (julianDay dt))"

definition QDate_month :: "QDateTime \<Rightarrow> int" where
  "QDate_month dt = fst (snd (dateFromJulianDay (julianDay dt)))"

definition QDate_day :: "QDateTime \<Rightarrow> int" where
  "QDate_day dt = snd (snd (dateFromJulianDay (julianDay dt)))"

definition QDateTime_of :: "int \<Rightarrow> int \<Rightarrow> int \<Rightarrow> int \<Rightarrow> QDateTime" where
  "QDateTime_of year month day ms =
     \<lparr>julianDay = julianDayFromDate year month day, msecsOfDay = ms\<rparr>"

definition QTime_setHMS :: "int \<Rightarrow> int \<Rightarrow> int \<Rightarrow> int option" where
  "QTime_setHMS h m s =
     (if 0 \<le> h \<and> h < 24 \<and> 0 \<le> m \<and> m < 60 \<and> 0 \<le> s \<and> s < 60
      then Some ((h * 3600 + m * 60 + s) * 1000) else None)"

text \<open>\<open>QDateTime::setTime\<close> with an invalid time sets midnight.\<close>

definition QDateTime_setTime :: "QDateTime \<Rightarrow> int option \<Rightarrow> QDateTime" where
  "QDateTime_setTime dt t = dt\<lparr>msecsOfDay := (case t of None \<Rightarrow> 0 | Some ms \<Rightarrow> ms)\<rparr>"

definition QDateTime_addDays :: "QDateTime \<Rightarrow> int \<Rightarrow> QDateTime" where
  "QDateTime_addDays dt n = dt\<lparr>julianDay := julianDay dt + n\<rparr>"

definition toMSecs :: "QDateTime \<Rightarrow> int" where
  "toMSecs dt = julianDay dt * 86400000 + msecsOfDay dt"

text \<open>\<open>operator>\<close> of \<open>QDateTime\<close>.\<close>

definition QDateTime_gt :: "QDateTime \<Rightarrow> QDateTime \<Rightarrow> bool" where
  "QDateTime_gt a b = (toMSecs b < toMSecs a)"

text \<open>What \<open>QDateTime::currentDateTime()\<close> can return: a time of day within the day.\<close>

definition valid_dt :: "QDateTime \<Rightarrow> bool" where
  "valid_dt dt = (0 \<le> msecsOfDay dt \<and> msecsOfDay dt < 86400000)"

section \<open>DailyRotationStrategy: the dated file name\<close>

text \<open>
  \<open>calc_filename\<close> splits the name at every dot, appends an empty part when there is only
  one, and fills the template \<open>%1_%2_%3_%4.%5\<close> from parts 0 and 1 and the date, one
  \<open>arg\<close> call after the other. After the \<open>append\<close> the list has at least two elements, so
  \<open>at(0)\<close> and \<open>at(1)\<close> are in range.
\<close>

definition calc_filename :: "string \<Rightarrow> QDateTime \<Rightarrow> string" where
  "calc_filename fileName dt =
     (let fileNamesplit0 = QString_split CHR ''.'' fileName;
          fileNamesplit = (if length fileNamesplit0 < 2 then fileNamesplit0 @ [''''] else fileNamesplit0);
          year = QDate_year dt;
          month = QDate_month dt;
          day = QDate_day dt
      in QString_arg
           (QString_arg_int
              (QString_arg_int
                 (QString_arg_int
                    (QString_arg ''%1_%2_%3_%4.%5'' (fileNamesplit ! 0)) year) month) day)
           (fileNamesplit ! 1))"

section \<open>The file system and the diagnostic stream\<close>

text \<open>
  The state outside the program: the regular files by absolute path, each with its
  content and its time of last modification; the paths on which removing, renaming and
  opening fail (a locked file, a missing permission); the working directory, against
  which every relative name is resolved (without a trailing slash; the root is the
  empty string); the operating system's clock, which stamps modified files; and what
  was written to \<open>std::cerr\<close>. Every path is listed at most once. Directories are
  not files of the model: creating the parent directory is outside it.
\<close>

record diskFile =
  content :: string
  lastModified :: int

record world =
  files :: "(string \<times> diskFile) list"
  locked :: "string set"
  cwd :: string
  osTime :: int
  cerr :: string

definition resolve :: "world \<Rightarrow> string \<Rightarrow> string" where
  "resolve w p = (if p \<noteq> [] \<and> hd p = CHR ''/'' then p else cwd w @ ''/'' @ p)"

definition lookup :: "world \<Rightarrow> string \<Rightarrow> diskFile option" where
  "lookup w p = map_of (files w) (resolve w p)"

definition content_of :: "world \<Rightarrow> string \<Rightarrow> string option" where
  "content_of w p = map_option content (lookup w p)"

definition QFile_exists :: "world \<Rightarrow> string \<Rightarrow> bool" where
  "QFile_exists w p = (lookup w p \<noteq> None)"

text \<open>The static \<open>QFile::remove\<close> and \<open>QFile::rename\<close>: the result and the new state.
  \<open>rename\<close> does not overwrite an existing file.\<close>

definition QFile_remove :: "string \<Rightarrow> world \<Rightarrow> bool \<times> world" where
  "QFile_remove p w =
     (let a = resolve w p in
      if a \<in> locked w \<or> map_of (files w) a = None then (False, w)
      else (True, w\<lparr>files := AList.delete a (files w)\<rparr>))"

definition QFile_rename :: "string \<Rightarrow> string \<Rightarrow> world \<Rightarrow> bool \<times> world" where
  "QFile_rename oldName newName w =
     (let a = resolve w oldName; b = resolve w newName in
      case map_of (files w) a of
        None \<Rightarrow> (False, w)
      | Some f \<Rightarrow>
          if a \<in> locked w \<or> b \<in> locked w \<or> map_of (files w) b \<noteq> None then (False, w)
          else (True, w\<lparr>files := AList.update b f (AList.delete a (files w))\<rparr>))"

datatype OpenModeFlag = ReadOnly | WriteOnly | Append | Truncate | Text | NewOnly

type_synonym OpenMode = "OpenModeFlag set"

record QFile =
  fileName :: string
  isOpen :: bool
  openMode :: OpenMode

definition QFile_of :: "string \<Rightarrow> QFile" where
  "QFile_of name = \<lparr>fileName = name, isOpen = False, openMode = {}\<rparr>"

text \<open>For a file, \<open>WriteOnly\<close> implies \<open>Truncate\<close> unless combined with \<open>ReadOnly\<close>,
  \<open>Append\<close> or \<open>NewOnly\<close>.\<close>

definition truncates :: "OpenMode \<Rightarrow> bool" where
  "truncates mode =
     (Truncate \<in> mode \<or>
      (WriteOnly \<in> mode \<and> ReadOnly \<notin> mode \<and> Append \<notin> mode \<and> NewOnly \<notin> mode))"

text \<open>
  \<open>QFile::open\<close> in a writing mode (the only modes this code uses): it fails on an
  open handle and on a locked path; otherwise it creates a missing file, empties an
  existing one when the mode truncates, and keeps it otherwise.
\<close>

definition QFile_open :: "OpenMode \<Rightarrow> QFile \<Rightarrow> world \<Rightarrow> bool \<times> QFile \<times> world" where
  "QFile_open mode f w =
     (let a = resolve w (fileName f) in
      if isOpen f \<or> a \<in> locked w then (False, f, w)
      else
        (let fresh = \<lparr>content = [], lastModified = osTime w\<rparr>;
             f' = (case map_of (files w) a of
                     None \<Rightarrow> fresh
                   | Some old \<Rightarrow> if truncates mode then fresh else old)
         in (True, f\<lparr>isOpen := True, openMode := mode\<rparr>,
             w\<lparr>files := AList.update a f' (files w)\<rparr>)))"

definition QFile_close :: "QFile \<Rightarrow> QFile" where
  "QFile_close f = f\<lparr>isOpen := False, openMode := {}\<rparr>"

text \<open>\<open>QFile::size\<close>: the size of the file of that name, 0 when there is none.\<close>

definition QFile_size :: "world \<Rightarrow> QFile \<Rightarrow> int" where
  "QFile_size w f =
     (case lookup w (fileName f) of None \<Rightarrow> 0 | Some x \<Rightarrow> int (length (content x)))"

text \<open>
  Output through the text stream, flushed at once: the bytes are appended to the file
  of the open handle; a handle that is not open drops them.
\<close>

definition QTextStream_put :: "QFile \<Rightarrow> string \<Rightarrow> world \<Rightarrow> world" where
  "QTextStream_put f s w =
     (if isOpen f then
        (case lookup w (fileName f) of
           None \<Rightarrow> w
         | Some x \<Rightarrow>
             w\<lparr>files := AList.update (resolve w (fileName f))
                   (x\<lparr>content := content x @ s, lastModified := osTime w\<rparr>) (files w)\<rparr>)
      else w)"

text \<open>\<open>Qt::endl\<close> puts a line feed and flushes (with the \<open>Text\<close> flag the line feed
  becomes CR LF on Windows only).\<close>

definition endl :: string where
  "endl = [CHR 0x0A]"

definition report :: "string \<Rightarrow> world \<Rightarrow> world" where
  "report s w = w\<lparr>cerr := cerr w @ s\<rparr>"

section \<open>SizeRotationStrategy\<close>

text \<open>
  \<open>qint64\<close> and \<open>int\<close> are unbounded integers here: the backup index stays below 12 and
  a byte count would need a file of more than \<open>2^63\<close> bytes to overflow.
\<close>

record SizeRotationStrategy =
  mFileName :: string
  mCurrentSizeInBytes :: int
  mMaxSizeInBytes :: int
  mBackupsCount :: int

definition MaxBackupCount :: int where
  "MaxBackupCount = 10"

definition SizeRotationStrategy_new :: SizeRotationStrategy where
  "SizeRotationStrategy_new =
     \<lparr>mFileName = [], mCurrentSizeInBytes = 0, mMaxSizeInBytes = 0, mBackupsCount = 0\<rparr>"

definition Size_setInitialInfo :: "QFile \<Rightarrow> world \<Rightarrow> SizeRotationStrategy \<Rightarrow> SizeRotationStrategy" where
  "Size_setInitialInfo f w s = s\<lparr>mFileName := fileName f, mCurrentSizeInBytes := QFile_size w f\<rparr>"

definition Size_includeMessageInCalculation :: "string \<Rightarrow> SizeRotationStrategy \<Rightarrow> SizeRotationStrategy" where
  "Size_includeMessageInCalculation message s =
     s\<lparr>mCurrentSizeInBytes := mCurrentSizeInBytes s + int (length message)\<rparr>"

definition Size_shouldRotate :: "SizeRotationStrategy \<Rightarrow> bool" where
  "Size_shouldRotate s = (mMaxSizeInBytes s < mCurrentSizeInBytes s)"

definition Size_recommendedOpenModeFlag :: OpenMode where
  "Size_recommendedOpenModeFlag = {Append}"

text \<open>\<open>Q_ASSERT\<close> aborts the process in a debug build and is compiled out in a release
  build.\<close>

datatype build = Debug | Release

datatype failure = Assertion_failed string

definition setMaximumSizeInBytes :: "build \<Rightarrow> int \<Rightarrow> SizeRotationStrategy \<Rightarrow> failure + SizeRotationStrategy" where
  "setMaximumSizeInBytes b size' s =
     (if b = Debug \<and> \<not> 0 \<le> size' then Inl (Assertion_failed ''size >= 0'')
      else Inr (s\<lparr>mMaxSizeInBytes := size'\<rparr>))"

definition setBackupCount :: "build \<Rightarrow> int \<Rightarrow> SizeRotationStrategy \<Rightarrow> failure + SizeRotationStrategy" where
  "setBackupCount b backups s =
     (if b = Debug \<and> \<not> 0 \<le> backups then Inl (Assertion_failed ''backups >= 0'')
      else Inr (s\<lparr>mBackupsCount := min backups MaxBackupCount\<rparr>))"

subsection \<open>rotate\<close>

definition backupName :: "SizeRotationStrategy \<Rightarrow> int \<Rightarrow> string" where
  "backupName s i = QString_arg_int (mFileName s @ ''.%1'') i"

text \<open>Step 1, the loop \<open>for (i = 1; i <= mBackupsCount; ++i)\<close> with its \<open>break\<close>.\<close>

function find_last_backup :: "world \<Rightarrow> SizeRotationStrategy \<Rightarrow> int \<Rightarrow> int \<Rightarrow> int" where
  "find_last_backup w s i lastExistingBackupIndex =
     (if i \<le> mBackupsCount s then
        (if QFile_exists w (backupName s i)
         then find_last_backup w s (i + 1) (min i (mBackupsCount s - 1))
         else lastExistingBackupIndex)
      else lastExistingBackupIndex)"
  by pat_completeness auto
termination
  by (relation "measure (\<lambda>(w, s, i, l). nat (mBackupsCount s + 1 - i))") auto

declare find_last_backup.simps [simp del]

text \<open>Step 2, one round of the loop \<open>for (i = lastExistingBackupIndex; i >= 1; --i)\<close>
  and the loop.\<close>

definition shift_one :: "SizeRotationStrategy \<Rightarrow> int \<Rightarrow> world \<Rightarrow> world" where
  "shift_one s i w =
     (let oldName = backupName s i;
          newName = backupName s (i + 1);
          w1 = snd (QFile_remove newName w);
          (renamed, w2) = QFile_rename oldName newName w1
      in if \<not> renamed
         then report (''QsLog: could not rename backup '' @ oldName @ '' to '' @ newName) w2
         else w2)"

function shift_up :: "SizeRotationStrategy \<Rightarrow> int \<Rightarrow> world \<Rightarrow> world" where
  "shift_up s i w = (if 1 \<le> i then shift_up s (i - 1) (shift_one s i w) else w)"
  by pat_completeness auto
termination
  by (relation "measure (\<lambda>(s, i, w). nat i)") auto

declare shift_up.simps [simp del]

definition Size_rotate :: "SizeRotationStrategy \<Rightarrow> world \<Rightarrow> world" where
  "Size_rotate s w =
     (if mBackupsCount s = 0 then
        (let (removed, w1) = QFile_remove (mFileName s) w
         in if \<not> removed then report (''QsLog: backup delete failed '' @ mFileName s) w1
            else w1)
      else
        (let lastExistingBackupIndex = find_last_backup w s 1 0;
             w2 = shift_up s lastExistingBackupIndex w;
             newName = backupName s 1;
             w3 = (if QFile_exists w2 newName then snd (QFile_remove newName w2) else w2);
             (renamed, w4) = QFile_rename (mFileName s) newName w3
         in if \<not> renamed
            then report (''QsLog: could not rename log '' @ mFileName s @ '' to '' @ newName) w4
            else w4))"

section \<open>FileDestination\<close>

text \<open>The destination with the size strategy it is used with. The stream stays
  attached to \<open>mFile\<close> whenever a message is put.\<close>

record FileDestination =
  mFile :: QFile
  mRotationStrategy :: SizeRotationStrategy

definition FileDestination_new :: "string \<Rightarrow> SizeRotationStrategy \<Rightarrow> world \<Rightarrow> FileDestination \<times> world" where
  "FileDestination_new filePath rotationStrategy w =
     (let (opened, f, w1) =
            QFile_open ({WriteOnly, Text} \<union> Size_recommendedOpenModeFlag) (QFile_of filePath) w;
          w2 = (if \<not> opened then report (''QsLog: could not open log file '' @ filePath) w1 else w1)
      in (\<lparr>mFile = f, mRotationStrategy = Size_setInitialInfo f w2 rotationStrategy\<rparr>, w2))"

text \<open>The body of \<open>if (mRotationStrategy->shouldRotate())\<close> in \<open>write\<close>: close, rotate,
  reopen, take the initial information again.\<close>

definition FileDestination_rotate :: "FileDestination \<Rightarrow> world \<Rightarrow> FileDestination \<times> world" where
  "FileDestination_rotate d w =
     (let f0 = QFile_close (mFile d);
          w1 = Size_rotate (mRotationStrategy d) w;
          (opened, f, w2) = QFile_open ({WriteOnly, Text} \<union> Size_recommendedOpenModeFlag) f0 w1;
          w3 = (if \<not> opened then report (''QsLog: could not reopen log file '' @ fileName f) w2 else w2)
      in (\<lparr>mFile = f, mRotationStrategy = Size_setInitialInfo f w3 (mRotationStrategy d)\<rparr>, w3))"

definition FileDestination_write :: "string \<Rightarrow> FileDestination \<times> world \<Rightarrow> FileDestination \<times> world" where
  "FileDestination_write message dw =
     (let d = fst dw; w = snd dw;
          d1 = d\<lparr>mRotationStrategy := Size_includeMessageInCalculation message (mRotationStrategy d)\<rparr>;
          (d2, w2) = (if Size_shouldRotate (mRotationStrategy d1) then FileDestination_rotate d1 w
                      else (d1, w))
      in (d2, QTextStream_put (mFile d2) (message @ endl) w2))"

definition FileDestination_isValid :: "FileDestination \<Rightarrow> bool" where
  "FileDestination_isValid d = isOpen (mFile d)"

text \<open>A sequence of calls of \<open>write\<close>, and the outcome of the rotation test of each.\<close>

fun FileDestination_writes :: "string list \<Rightarrow> FileDestination \<times> world \<Rightarrow> FileDestination \<times> world" where
  "FileDestination_writes [] dw = dw"
| "FileDestination_writes (m # ms) dw = FileDestination_writes ms (FileDestination_write m dw)"

fun rotation_tests :: "string list \<Rightarrow> FileDestination \<times> world \<Rightarrow> bool list" where
  "rotation_tests [] dw = []"
| "rotation_tests (m # ms) dw =
     Size_shouldRotate (Size_includeMessageInCalculation m (mRotationStrategy (fst dw)))
       # rotation_tests ms (FileDestination_write m dw)"

section \<open>Paths and directory listings\<close>

text \<open>
  \<open>QFileInfo(p).absolutePath()\<close> is the directory part of the resolved path and
  \<open>QFileInfo(p).suffix()\<close> what follows the last dot of the file name. Paths are taken
  as they are written: components \<open>.\<close> and \<open>..\<close> and doubled separators are not cleaned.
\<close>

definition base_name :: "string \<Rightarrow> string" where
  "base_name p = rev (takeWhile (\<lambda>c. c \<noteq> CHR ''/'') (rev p))"

definition dir_name :: "string \<Rightarrow> string" where
  "dir_name p =
     (let d = rev (drop 1 (dropWhile (\<lambda>c. c \<noteq> CHR ''/'') (rev p)))
      in if d = [] then ''/'' else d)"

definition absolutePath :: "world \<Rightarrow> string \<Rightarrow> string" where
  "absolutePath w p = dir_name (resolve w p)"

definition suffix :: "string \<Rightarrow> string" where
  "suffix p =
     (let n = base_name p
      in if CHR ''.'' \<in> set n then rev (takeWhile (\<lambda>c. c \<noteq> CHR ''.'') (rev n)) else [])"

text \<open>
  A name filter of \<open>QDir\<close> is a wildcard pattern matched without regard to case
  (\<open>QDir::CaseSensitive\<close> is not set; the case of ASCII letters only). The star and
  the question mark are modelled, character sets in brackets are not.
\<close>

definition toLower :: "char \<Rightarrow> char" where
  "toLower c =
     (let n = (of_char c :: nat) in if 65 \<le> n \<and> n \<le> 90 then char_of (n + 32) else c)"

fun wildcard :: "string \<Rightarrow> string \<Rightarrow> bool" where
  "wildcard [] [] = True"
| "wildcard [] (c # cs) = False"
| "wildcard (p # ps) [] = (p = CHR ''*'' \<and> wildcard ps [])"
| "wildcard (p # ps) (c # cs) =
     (if p = CHR ''*'' then wildcard ps (c # cs) \<or> wildcard (p # ps) cs
      else (p = CHR ''?'' \<or> toLower p = toLower c) \<and> wildcard ps cs)"

text \<open>
  \<open>QDir::entryList(nameFilters, QDir::Files | QDir::Readable, QDir::Time)\<close>: the names
  (not the paths) of the files of the directory that match the filter and are not
  hidden, the most recently modified first, equal times in the order of the names.
  Every file of the model is readable.
\<close>

definition newer :: "string \<times> diskFile \<Rightarrow> string \<times> diskFile \<Rightarrow> bool" where
  "newer a b =
     (lastModified (snd b) < lastModified (snd a) \<or>
      (lastModified (snd a) = lastModified (snd b) \<and> fst a < fst b))"

fun insert_sorted :: "string \<times> diskFile \<Rightarrow> (string \<times> diskFile) list \<Rightarrow> (string \<times> diskFile) list" where
  "insert_sorted a [] = [a]"
| "insert_sorted a (b # bs) = (if newer b a then b # insert_sorted a bs else a # b # bs)"

fun sort_by_time :: "(string \<times> diskFile) list \<Rightarrow> (string \<times> diskFile) list" where
  "sort_by_time [] = []"
| "sort_by_time (a # as) = insert_sorted a (sort_by_time as)"

definition listed :: "string \<Rightarrow> string \<Rightarrow> string \<Rightarrow> bool" where
  "listed dir pat p =
     (dir_name p = dir \<and> wildcard pat (base_name p) \<and> take 1 (base_name p) \<noteq> ''.'')"

definition entryList :: "world \<Rightarrow> string \<Rightarrow> string \<Rightarrow> string list" where
  "entryList w dir pat =
     map fst (sort_by_time
       (map (\<lambda>(p, f). (base_name p, f)) (filter (\<lambda>(p, f). listed dir pat p) (files w))))"

section \<open>DailyRotationStrategy\<close>

text \<open>
  Every call of \<open>QDateTime::currentDateTime()\<close> is a parameter of the function that makes
  it, named as the local variable that receives it.
\<close>

record DailyRotationStrategy =
  mFileNameD :: string
  rotation_hour :: int
  rotation_minute :: int
  rotation_tp :: QDateTime

text \<open>The fields are the members of the class, without the trailing underscore of
  \<open>rotation_hour_\<close>, \<open>rotation_minute_\<close>, \<open>rotation_tp_\<close> and \<open>mRotationStrategy_\<close>, which
  is no name in HOL. The constructor leaves \<open>rotation_tp\<close> a null \<open>QDateTime\<close>, which \<open>setInitialInfo\<close>
  overwrites before the first comparison.\<close>

definition DailyRotationStrategy_new :: DailyRotationStrategy where
  "DailyRotationStrategy_new =
     \<lparr>mFileNameD = [], rotation_hour = 0, rotation_minute = 0,
      rotation_tp = \<lparr>julianDay = 0, msecsOfDay = 0\<rparr>\<rparr>"

definition setRotation_hour :: "int \<Rightarrow> DailyRotationStrategy \<Rightarrow> DailyRotationStrategy" where
  "setRotation_hour newRotation_hour s = s\<lparr>rotation_hour := newRotation_hour\<rparr>"

definition setRotation_minute :: "int \<Rightarrow> DailyRotationStrategy \<Rightarrow> DailyRotationStrategy" where
  "setRotation_minute newRotation_minute s = s\<lparr>rotation_minute := newRotation_minute\<rparr>"

definition next_rotation_tp :: "QDateTime \<Rightarrow> int \<Rightarrow> int \<Rightarrow> QDateTime" where
  "next_rotation_tp nowdt hour minute =
     QDateTime_addDays (QDateTime_setTime nowdt (QTime_setHMS hour minute 0)) 1"

definition Daily_setInitialInfo :: "QDateTime \<Rightarrow> QFile \<Rightarrow> DailyRotationStrategy \<Rightarrow> DailyRotationStrategy" where
  "Daily_setInitialInfo nowdt f s =
     s\<lparr>mFileNameD := fileName f,
       rotation_tp := next_rotation_tp nowdt (rotation_hour s) (rotation_minute s)\<rparr>"

text \<open>\<open>shouldRotate\<close> reads the clock for the comparison (\<open>nowTime\<close>) and, when it
  answers true, once more inside \<open>next_rotation_tp\<close> (\<open>nowdt\<close>).\<close>

definition Daily_shouldRotate :: "QDateTime \<Rightarrow> QDateTime \<Rightarrow> DailyRotationStrategy \<Rightarrow> bool \<times> DailyRotationStrategy" where
  "Daily_shouldRotate nowTime nowdt s =
     (if QDateTime_gt nowTime (rotation_tp s)
      then (True, s\<lparr>rotation_tp := next_rotation_tp nowdt (rotation_hour s) (rotation_minute s)\<rparr>)
      else (False, s))"

definition Daily_getFileName :: "QDateTime \<Rightarrow> DailyRotationStrategy \<Rightarrow> string" where
  "Daily_getFileName nowdt s = calc_filename (mFileNameD s) nowdt"

definition Daily_recommendedOpenModeFlag :: OpenMode where
  "Daily_recommendedOpenModeFlag = {Append}"

text \<open>The loop \<open>for (int i = 29; i < results.length(); i++) QFile::remove(results.at(i))\<close>.\<close>

function remove_from :: "string list \<Rightarrow> nat \<Rightarrow> world \<Rightarrow> world" where
  "remove_from results i w =
     (if i < length results then remove_from results (i + 1) (snd (QFile_remove (results ! i) w))
      else w)"
  by pat_completeness auto
termination
  by (relation "measure (\<lambda>(results, i, w). length results - i)") auto

declare remove_from.simps [simp del]

definition Daily_rotate :: "QDateTime \<Rightarrow> DailyRotationStrategy \<Rightarrow> world \<Rightarrow> world" where
  "Daily_rotate nowdt s w =
     (let fileName' = Daily_getFileName nowdt s;
          fileDir = absolutePath w fileName';
          filefilter = suffix fileName';
          results = entryList w fileDir (''*.'' @ filefilter)
      in if 29 < length results then remove_from results 29 w else w)"

text \<open>A sequence of calls of \<open>shouldRotate\<close>, each with its two readings of the clock.\<close>

fun Daily_calls :: "(QDateTime \<times> QDateTime) list \<Rightarrow> DailyRotationStrategy \<Rightarrow> bool list \<times> DailyRotationStrategy" where
  "Daily_calls [] s = ([], s)"
| "Daily_calls ((nowTime, nowdt) # ts) s =
     (let (r, s1) = Daily_shouldRotate nowTime nowdt s;
          (rs, s2) = Daily_calls ts s1
      in (r # rs, s2))"

section \<open>DailyFileDestination\<close>

text \<open>The destination with the daily strategy it is used with.\<close>

record DailyFileDestination =
  mFileD :: QFile
  mRotationStrategyD :: DailyRotationStrategy

text \<open>The constructor reads the clock in \<open>setInitialInfo\<close> (\<open>t_info\<close>) and in
  \<open>getFileName\<close> (\<open>t_name\<close>).\<close>

definition DailyFileDestination_new :: "QDateTime \<Rightarrow> QDateTime \<Rightarrow> string \<Rightarrow> DailyRotationStrategy \<Rightarrow> world \<Rightarrow> DailyFileDestination \<times> world" where
  "DailyFileDestination_new t_info t_name filePath rotationStrategy w =
     (let s1 = Daily_setInitialInfo t_info (QFile_of filePath) rotationStrategy;
          fileName' = Daily_getFileName t_name s1;
          (opened, f, w1) = QFile_open {WriteOnly, Text} (QFile_of fileName') w;
          w2 = (if \<not> opened then report (''QsLog: could not open log file '' @ filePath) w1 else w1)
      in (\<lparr>mFileD = f, mRotationStrategyD = s1\<rparr>, w2))"

text \<open>The body of \<open>if (mRotationStrategy_->shouldRotate())\<close> in \<open>write\<close>; the clock is
  read by \<open>rotate\<close> (\<open>t_rotate\<close>) and by \<open>getFileName\<close> (\<open>t_name\<close>).\<close>

definition DailyFileDestination_rotate :: "QDateTime \<Rightarrow> QDateTime \<Rightarrow> DailyFileDestination \<Rightarrow> world \<Rightarrow> DailyFileDestination \<times> world" where
  "DailyFileDestination_rotate t_rotate t_name d w =
     (let f0 = QFile_close (mFileD d);
          w1 = Daily_rotate t_rotate (mRotationStrategyD d) w;
          fileName' = Daily_getFileName t_name (mRotationStrategyD d);
          f1 = f0\<lparr>fileName := fileName'\<rparr>;
          (opened, f, w2) = QFile_open ({WriteOnly, Text} \<union> Daily_recommendedOpenModeFlag) f1 w1;
          w3 = (if \<not> opened then report (''QsLog: could not reopen log file '' @ fileName f) w2 else w2)
      in (d\<lparr>mFileD := f\<rparr>, w3))"

definition DailyFileDestination_write ::
  "QDateTime \<Rightarrow> QDateTime \<Rightarrow> QDateTime \<Rightarrow> QDateTime \<Rightarrow> string \<Rightarrow> DailyFileDestination \<times> world \<Rightarrow> DailyFileDestination \<times> world" where
  "DailyFileDestination_write nowTime nowdt t_rotate t_name message dw =
     (let d = fst dw; w = snd dw;
          (r, s1) = Daily_shouldRotate nowTime nowdt (mRotationStrategyD d);
          d1 = d\<lparr>mRotationStrategyD := s1\<rparr>;
          (d2, w2) = (if r then DailyFileDestination_rotate t_rotate t_name d1 w else (d1, w))
      in (d2, QTextStream_put (mFileD d2) (message @ endl) w2))"

definition DailyFileDestination_isValid :: "DailyFileDestination \<Rightarrow> bool" where
  "DailyFileDestination_isValid d = isOpen (mFileD d)"

section \<open>The state of a backup chain, and example states\<close>

text \<open>
  \<open>chain s w c h\<close>: in the state \<open>w\<close> the log file of \<open>s\<close> holds \<open>c\<close>, the backups
  \<open>.1\<close>, \<open>.2\<close>, ... hold the elements of \<open>h\<close> in this order as far as the backup count
  reaches, and no backup beyond the backup count exists.
\<close>

definition chain :: "SizeRotationStrategy \<Rightarrow> world \<Rightarrow> string \<Rightarrow> string list \<Rightarrow> bool" where
  "chain s w c h =
     (content_of w (mFileName s) = Some c \<and>
      (\<forall>j. 1 \<le> j \<and> j \<le> min (int (length h)) (mBackupsCount s) \<longrightarrow>
           content_of w (backupName s j) = Some (h ! nat (j - 1))) \<and>
      (\<forall>j. mBackupsCount s < j \<longrightarrow> lookup w (backupName s j) = None))"

text \<open>A directory \<open>/tmp\<close> with one log file of three bytes, a size strategy keeping two
  backups of at most three bytes, and its destination as the constructor leaves it.\<close>

definition w_log :: world where
  "w_log = \<lparr>files = [(''/tmp/app.log'', \<lparr>content = ''old'', lastModified = 7\<rparr>)],
            locked = {}, cwd = ''/tmp'', osTime = 9, cerr = []\<rparr>"

definition s_two :: SizeRotationStrategy where
  "s_two = \<lparr>mFileName = ''app.log'', mCurrentSizeInBytes = 3, mMaxSizeInBytes = 3, mBackupsCount = 2\<rparr>"

definition d_two :: FileDestination where
  "d_two = \<lparr>mFile = \<lparr>fileName = ''app.log'', isOpen = True, openMode = {WriteOnly, Text, Append}\<rparr>,
            mRotationStrategy = s_two\<rparr>"

text \<open>The same destination with room for a hundred bytes.\<close>

definition d_roomy :: FileDestination where
  "d_roomy = d_two\<lparr>mRotationStrategy := s_two\<lparr>mMaxSizeInBytes := 100\<rparr>\<rparr>"

text \<open>A daily strategy that rotates at 03:30 and whose deadline is 2024-03-06, 03:30;
  times of day are in milliseconds (03:30 is 12600000).\<close>

definition s_daily :: DailyRotationStrategy where
  "s_daily = \<lparr>mFileNameD = ''/var/log/app.log'', rotation_hour = 3, rotation_minute = 30,
              rotation_tp = QDateTime_of 2024 3 6 12600000\<rparr>"

text \<open>A directory \<open>/var/log\<close> with 35 dated log files, the file of day \<open>n\<close> last modified
  at time \<open>n\<close>, seen from the working directory \<open>/srv/app\<close>.\<close>

definition dated_log :: "nat \<Rightarrow> string \<times> diskFile" where
  "dated_log n = (''/var/log/app_2024_1_'' @ digits n @ ''.log'',
                  \<lparr>content = ''x'', lastModified = int n\<rparr>)"

definition w_35 :: world where
  "w_35 = \<lparr>files = map dated_log [1..<36], locked = {}, cwd = ''/srv/app'', osTime = 100, cerr = []\<rparr>"

text \<open>A directory \<open>/tmp\<close> that holds the dated files of 2024-03-05 and 2024-03-06.\<close>

definition w_dated :: world where
  "w_dated = \<lparr>files = [(''/tmp/app_2024_3_5.log'', \<lparr>content = ''keep'', lastModified = 5\<rparr>),
                       (''/tmp/app_2024_3_6.log'', \<lparr>content = ''prior'', lastModified = 6\<rparr>)],
              locked = {}, cwd = ''/tmp'', osTime = 9, cerr = []\<rparr>"

text \<open>The daily destination constructed there on 2024-03-05 at 10:00 for \<open>app.log\<close>, to
  rotate at midnight.\<close>

definition dw_dated :: "DailyFileDestination \<times> world" where
  "dw_dated =
     DailyFileDestination_new (QDateTime_of 2024 3 5 36000000) (QDateTime_of 2024 3 5 36000000)
       ''app.log'' DailyRotationStrategy_new w_dated"

text \<open>Three backups allowed, and a directory in which \<open>app.log.2\<close> and \<open>app.log.3\<close> exist
  but \<open>app.log.1\<close> does not.\<close>

definition s_three :: SizeRotationStrategy where
  "s_three = \<lparr>mFileName = ''app.log'', mCurrentSizeInBytes = 3, mMaxSizeInBytes = 3, mBackupsCount = 3\<rparr>"

definition w_gap :: world where
  "w_gap = \<lparr>files = [(''/tmp/app.log'', \<lparr>content = ''old'', lastModified = 7\<rparr>),
                     (''/tmp/app.log.2'', \<lparr>content = ''two'', lastModified = 5\<rparr>),
                     (''/tmp/app.log.3'', \<lparr>content = ''three'', lastModified = 4\<rparr>)],
            locked = {}, cwd = ''/tmp'', osTime = 9, cerr = []\<rparr>"

text \<open>The same directory with both backups of \<open>s_two\<close> present.\<close>

definition w_full :: world where
  "w_full = \<lparr>files = [(''/tmp/app.log'', \<lparr>content = ''old'', lastModified = 7\<rparr>),
                      (''/tmp/app.log.1'', \<lparr>content = ''one'', lastModified = 6\<rparr>),
                      (''/tmp/app.log.2'', \<lparr>content = ''two'', lastModified = 5\<rparr>)],
             locked = {}, cwd = ''/tmp'', osTime = 9, cerr = []\<rparr>"

text \<open>A log file whose name holds the place marker \<open>%1\<close>.\<close>

definition s_marker :: SizeRotationStrategy where
  "s_marker = \<lparr>mFileName = ''a%1.log'', mCurrentSizeInBytes = 3, mMaxSizeInBytes = 3, mBackupsCount = 2\<rparr>"

definition w_marker :: world where
  "w_marker = \<lparr>files = [(''/tmp/a%1.log'', \<lparr>content = ''old'', lastModified = 7\<rparr>)],
               locked = {}, cwd = ''/tmp'', osTime = 9, cerr = []\<rparr>"

text \<open>The destination of \<open>s_three\<close>.\<close>

definition d_three :: FileDestination where
  "d_three = \<lparr>mFile = \<lparr>fileName = ''app.log'', isOpen = True, openMode = {WriteOnly, Text, Append}\<rparr>,
              mRotationStrategy = s_three\<rparr>"

section \<open>Facts about the Qt values\<close>

lemma pieces_plain: "CHR ''%'' \<notin> set p \<Longrightarrow> pieces (p @ q) = map Plain p @ pieces q"
  by (induction p) auto

lemma escapes_plain: "escapes (map Plain p @ ps) = escapes ps"
  by (induction p) auto

lemma replace_escapes_plain: "replace_escapes m a (map Plain p @ ps) = p @ replace_escapes m a ps"
  by (induction p) auto

lemma pieces_dot_marker: "pieces ''.%1'' = [Plain CHR ''.'', Marker 1 ''%1'']"
  by (simp add: escape_at_def digitValue_def)

lemma QString_arg_pattern:
  "CHR ''%'' \<notin> set p \<Longrightarrow> QString_arg (p @ ''.%1'') a = p @ ''.'' @ a"
proof -
  assume "CHR ''%'' \<notin> set p"
  then have ps: "pieces (p @ ''.%1'') = map Plain p @ [Plain CHR ''.'', Marker 1 ''%1'']"
    by (simp add: pieces_plain pieces_dot_marker del: pieces.simps)
  show ?thesis
    unfolding QString_arg_def ps by (simp add: escapes_plain replace_escapes_plain)
qed

lemma backupName_plain:
  "CHR ''%'' \<notin> set (mFileName s) \<Longrightarrow> backupName s i = mFileName s @ ''.'' @ QString_number i"
  by (simp add: backupName_def QString_arg_int_def QString_arg_pattern)

lemma digit_char_inj: "a < 10 \<Longrightarrow> b < 10 \<Longrightarrow> digit_char a = digit_char b \<Longrightarrow> a = b"
proof -
  assume a: "a < 10" and b: "b < 10" and e: "digit_char a = digit_char b"
  have d: "distinct ''0123456789''" by simp
  have "length ''0123456789'' = 10" by simp
  with a b d e show ?thesis
    unfolding digit_char_def by (metis nth_eq_iff_index_eq)
qed

lemma digits_nonempty: "digits n \<noteq> []"
  by (subst digits.simps) simp

lemma digits_inj: "digits n = digits m \<Longrightarrow> n = m"
proof (induction n arbitrary: m rule: digits.induct)
  case (1 n)
  show ?case
  proof (cases "n < 10")
    case True
    show ?thesis
    proof (cases "m < 10")
      case mt: True
      from "1.prems" True mt have "digit_char n = digit_char m"
        by (simp add: digits.simps)
      with True mt show ?thesis by (rule digit_char_inj)
    next
      case False
      with "1.prems" True have "[digit_char n] = digits (m div 10) @ [digit_char (m mod 10)]"
        by (simp add: digits.simps[of n] digits.simps[of m])
      then show ?thesis using digits_nonempty[of "m div 10"] by simp
    qed
  next
    case False
    show ?thesis
    proof (cases "m < 10")
      case True
      with "1.prems" False have "digits (n div 10) @ [digit_char (n mod 10)] = [digit_char m]"
        by (simp add: digits.simps[of n] digits.simps[of m])
      then show ?thesis using digits_nonempty[of "n div 10"] by simp
    next
      case mf: False
      with "1.prems" False
      have e: "digits (n div 10) @ [digit_char (n mod 10)] = digits (m div 10) @ [digit_char (m mod 10)]"
        by (simp add: digits.simps[of n] digits.simps[of m])
      then have "digits (n div 10) = digits (m div 10)" and c: "digit_char (n mod 10) = digit_char (m mod 10)"
        by simp_all
      with "1.IH" False have q: "n div 10 = m div 10" by blast
      have "n mod 10 = m mod 10" using c by (intro digit_char_inj) simp_all
      with q show ?thesis by (metis div_mult_mod_eq)
    qed
  qed
qed

lemma QString_number_inj: "0 \<le> i \<Longrightarrow> 0 \<le> j \<Longrightarrow> QString_number i = QString_number j \<Longrightarrow> i = j"
  by (auto simp: QString_number_def dest: digits_inj)

section \<open>Facts about the file system\<close>

lemma resolve_append_dot: "resolve w (p @ CHR ''.'' # x) = resolve w p @ CHR ''.'' # x"
  by (cases p) (simp_all add: resolve_def)

lemma resolve_cwd: "cwd w' = cwd w \<Longrightarrow> resolve w' p = resolve w p"
  by (simp add: resolve_def)

lemma report_fields [simp]:
  "files (report t w) = files w" "locked (report t w) = locked w"
  "cwd (report t w) = cwd w" "osTime (report t w) = osTime w"
  by (simp_all add: report_def)

lemma remove_fields [simp]:
  "locked (snd (QFile_remove q w)) = locked w" "cwd (snd (QFile_remove q w)) = cwd w"
  "osTime (snd (QFile_remove q w)) = osTime w" "cerr (snd (QFile_remove q w)) = cerr w"
  by (simp_all add: QFile_remove_def Let_def)

lemma rename_fields [simp]:
  "locked (snd (QFile_rename a b w)) = locked w" "cwd (snd (QFile_rename a b w)) = cwd w"
  "osTime (snd (QFile_rename a b w)) = osTime w" "cerr (snd (QFile_rename a b w)) = cerr w"
  by (simp_all add: QFile_rename_def Let_def split: option.splits)

lemma remove_files:
  "resolve w q \<notin> locked w \<Longrightarrow>
   map_of (files (snd (QFile_remove q w))) = (map_of (files w))(resolve w q := None)"
  by (auto simp: QFile_remove_def Let_def delete_conv')

lemma remove_result:
  "fst (QFile_remove q w) = (resolve w q \<notin> locked w \<and> map_of (files w) (resolve w q) \<noteq> None)"
  by (simp add: QFile_remove_def Let_def)

lemma remove_locked:
  "resolve w q \<in> locked w \<Longrightarrow> QFile_remove q w = (False, w)"
  by (simp add: QFile_remove_def Let_def)

text \<open>Renaming onto a name that is free.\<close>

lemma rename_files:
  assumes "resolve w a \<notin> locked w" "resolve w b \<notin> locked w"
    and "map_of (files w) (resolve w b) = None"
  shows "map_of (files (snd (QFile_rename a b w))) =
         ((map_of (files w))(resolve w b := map_of (files w) (resolve w a)))(resolve w a := None)"
proof (cases "map_of (files w) (resolve w a)")
  case None
  with assms show ?thesis
    by (auto simp: QFile_rename_def Let_def)
next
  case (Some f)
  with assms have ne: "resolve w a \<noteq> resolve w b" by auto
  from Some assms ne show ?thesis
    by (auto simp: QFile_rename_def Let_def update_conv' delete_conv')
qed

lemma rename_result:
  "fst (QFile_rename a b w) =
     (map_of (files w) (resolve w a) \<noteq> None \<and> resolve w a \<notin> locked w \<and>
      resolve w b \<notin> locked w \<and> map_of (files w) (resolve w b) = None)"
  by (auto simp: QFile_rename_def Let_def split: option.splits)

section \<open>Facts about the backup chain\<close>

lemma backupPath_plain:
  "CHR ''%'' \<notin> set (mFileName s) \<Longrightarrow>
   resolve w (backupName s i) = resolve w (mFileName s) @ ''.'' @ QString_number i"
  by (simp add: backupName_plain resolve_append_dot)

lemma backupPath_inj:
  "CHR ''%'' \<notin> set (mFileName s) \<Longrightarrow> 0 \<le> i \<Longrightarrow> 0 \<le> j \<Longrightarrow>
   resolve w (backupName s i) = resolve w' (backupName s j) \<Longrightarrow> cwd w' = cwd w \<Longrightarrow> i = j"
  by (simp add: backupPath_plain resolve_cwd[of w' w] QString_number_inj)

lemma backupPath_not_log:
  "CHR ''%'' \<notin> set (mFileName s) \<Longrightarrow> resolve w (backupName s i) \<noteq> resolve w (mFileName s)"
  by (simp add: backupPath_plain)

lemma resolve_prims [simp]:
  "resolve (snd (QFile_remove q w)) x = resolve w x"
  "resolve (snd (QFile_rename a b w)) x = resolve w x"
  "resolve (report t w) x = resolve w x"
  by (simp_all add: resolve_def)

lemma shift_one_fields [simp]:
  "locked (shift_one s i w) = locked w" "cwd (shift_one s i w) = cwd w"
  "osTime (shift_one s i w) = osTime w"
  by (simp_all add: shift_one_def Let_def split_def)

lemma resolve_shift_one [simp]: "resolve (shift_one s i w) x = resolve w x"
  by (simp add: resolve_def)

lemma shift_one_files:
  assumes u: "locked w = {}" and p: "CHR ''%'' \<notin> set (mFileName s)" and i: "0 \<le> i"
  shows "map_of (files (shift_one s i w)) =
         ((map_of (files w))(resolve w (backupName s (i + 1)) := map_of (files w) (resolve w (backupName s i))))
           (resolve w (backupName s i) := None)"
proof -
  let ?F = "map_of (files w)"
  let ?a = "resolve w (backupName s i)"
  let ?b = "resolve w (backupName s (i + 1))"
  let ?w1 = "snd (QFile_remove (backupName s (i + 1)) w)"
  have ne: "?a \<noteq> ?b"
    using backupPath_inj[OF p, of i "i + 1" w w] i by auto
  have f1: "map_of (files ?w1) = ?F(?b := None)"
    using u by (simp add: remove_files)
  have "map_of (files (snd (QFile_rename (backupName s i) (backupName s (i + 1)) ?w1))) =
        ((map_of (files ?w1))(?b := map_of (files ?w1) ?a))(?a := None)"
    using rename_files[of ?w1 "backupName s i" "backupName s (i + 1)"] u f1 by simp
  also have "\<dots> = (?F(?b := ?F ?a))(?a := None)"
    using ne by (simp add: f1)
  finally show ?thesis
    by (simp add: shift_one_def Let_def split_def)
qed

lemma shift_up_fields [simp]:
  "locked (shift_up s i w) = locked w" "cwd (shift_up s i w) = cwd w"
  "osTime (shift_up s i w) = osTime w"
  by (induction s i w rule: shift_up.induct; subst shift_up.simps; simp)+

lemma resolve_shift_up [simp]: "resolve (shift_up s i w) x = resolve w x"
  by (simp add: resolve_def)

text \<open>A path that is none of the backups 1 .. i + 1 is left alone by the shift.\<close>

lemma shift_up_frame:
  assumes "locked w = {}" "CHR ''%'' \<notin> set (mFileName s)"
    and "\<And>j. 1 \<le> j \<Longrightarrow> j \<le> i + 1 \<Longrightarrow> x \<noteq> resolve w (backupName s j)"
  shows "map_of (files (shift_up s i w)) x = map_of (files w) x"
  using assms
proof (induction s i w rule: shift_up.induct)
  case (1 s i w)
  show ?case
  proof (cases "1 \<le> i")
    case True
    have "map_of (files (shift_up s (i - 1) (shift_one s i w))) x = map_of (files (shift_one s i w)) x"
      using True "1.prems" by (intro "1.IH") simp_all
    also have "\<dots> = map_of (files w) x"
      using True "1.prems" by (simp add: shift_one_files)
    finally show ?thesis using True by (subst shift_up.simps) simp
  next
    case False
    then show ?thesis by (subst shift_up.simps) simp
  qed
qed

text \<open>Every backup 1 .. i moves one index up, none is overwritten before it moved.\<close>

lemma shift_up_moves:
  assumes "locked w = {}" "CHR ''%'' \<notin> set (mFileName s)" "1 \<le> j" "j \<le> i"
  shows "map_of (files (shift_up s i w)) (resolve w (backupName s (j + 1))) =
         map_of (files w) (resolve w (backupName s j))"
  using assms
proof (induction s i w rule: shift_up.induct)
  case (1 s i w)
  let ?w1 = "shift_one s i w"
  have i1: "1 \<le> i" using "1.prems" by simp
  have step: "shift_up s i w = shift_up s (i - 1) ?w1"
    using i1 by (subst shift_up.simps) simp
  show ?case
  proof (cases "j = i")
    case True
    have "map_of (files (shift_up s (i - 1) ?w1)) (resolve w (backupName s (i + 1))) =
          map_of (files ?w1) (resolve w (backupName s (i + 1)))"
    proof (rule shift_up_frame)
      fix k assume "1 \<le> k" "k \<le> i - 1 + 1"
      then show "resolve w (backupName s (i + 1)) \<noteq> resolve ?w1 (backupName s k)"
        using backupPath_inj[OF "1.prems"(2), of "i + 1" k w ?w1] by auto
    qed (use "1.prems" in simp_all)
    also have "\<dots> = map_of (files w) (resolve w (backupName s i))"
      using "1.prems" i1 backupPath_inj[OF "1.prems"(2), of i "i + 1" w w]
      by (auto simp: shift_one_files)
    finally show ?thesis using True step by simp
  next
    case False
    then have ji: "j \<le> i - 1" using "1.prems" by simp
    have "map_of (files (shift_up s (i - 1) ?w1)) (resolve ?w1 (backupName s (j + 1))) =
          map_of (files ?w1) (resolve ?w1 (backupName s j))"
      using i1 "1.prems" ji by (intro "1.IH") simp_all
    also have "\<dots> = map_of (files w) (resolve w (backupName s j))"
      using "1.prems" i1 False backupPath_inj[OF "1.prems"(2), of j "i + 1" w w]
        backupPath_inj[OF "1.prems"(2), of j i w w]
      by (auto simp: shift_one_files)
    finally show ?thesis using step by simp
  qed
qed

lemma shift_up_first:
  assumes "locked w = {}" "CHR ''%'' \<notin> set (mFileName s)" "1 \<le> i"
  shows "map_of (files (shift_up s i w)) (resolve w (backupName s 1)) = None"
  using assms
proof (induction s i w rule: shift_up.induct)
  case (1 s i w)
  let ?w1 = "shift_one s i w"
  have step: "shift_up s i w = shift_up s (i - 1) ?w1"
    using "1.prems" by (subst shift_up.simps) simp
  show ?case
  proof (cases "i = 1")
    case True
    have "shift_up s 0 ?w1 = ?w1" by (subst shift_up.simps) simp
    then show ?thesis using True step "1.prems" by (simp add: shift_one_files)
  next
    case False
    have "map_of (files (shift_up s (i - 1) ?w1)) (resolve ?w1 (backupName s 1)) = None"
      using "1.prems" False by (intro "1.IH") simp_all
    then show ?thesis using step by simp
  qed
qed

lemma find_last_backup_range:
  "0 \<le> l \<Longrightarrow> 1 \<le> i \<Longrightarrow> l \<le> max 0 (mBackupsCount s - 1) \<Longrightarrow>
   0 \<le> find_last_backup w s i l \<and> find_last_backup w s i l \<le> max 0 (mBackupsCount s - 1)"
proof (induction w s i l rule: find_last_backup.induct)
  case (1 w s i l)
  show ?case
  proof (cases "i \<le> mBackupsCount s \<and> QFile_exists w (backupName s i)")
    case True
    then have "find_last_backup w s i l = find_last_backup w s (i + 1) (min i (mBackupsCount s - 1))"
      by (subst find_last_backup.simps) simp
    moreover have "0 \<le> find_last_backup w s (i + 1) (min i (mBackupsCount s - 1)) \<and>
        find_last_backup w s (i + 1) (min i (mBackupsCount s - 1)) \<le> max 0 (mBackupsCount s - 1)"
      using True "1.prems" by (intro "1.IH") auto
    ultimately show ?thesis by simp
  next
    case False
    then have "find_last_backup w s i l = l"
      by (subst find_last_backup.simps) auto
    with "1.prems" show ?thesis by simp
  qed
qed

text \<open>The scan stops at the first missing backup and never answers more than
  \<open>mBackupsCount - 1\<close>: with the backups \<open>i .. k\<close> present and \<open>k + 1\<close> missing or beyond
  the count, it answers \<open>min k (mBackupsCount - 1)\<close>.\<close>

lemma find_last_backup_scan:
  assumes "i - 1 \<le> k" "k \<le> mBackupsCount s"
    and "\<And>j. i \<le> j \<Longrightarrow> j \<le> k \<Longrightarrow> QFile_exists w (backupName s j)"
    and "k = mBackupsCount s \<or> \<not> QFile_exists w (backupName s (k + 1))"
  shows "find_last_backup w s i l = (if k < i then l else min k (mBackupsCount s - 1))"
  using assms
proof (induction w s i l rule: find_last_backup.induct)
  case (1 w s i l)
  show ?case
  proof (cases "i \<le> mBackupsCount s \<and> QFile_exists w (backupName s i)")
    case True
    have ki: "i \<le> k"
    proof (rule ccontr)
      assume "\<not> i \<le> k"
      with "1.prems"(1) have "k = i - 1" by simp
      with "1.prems"(4) True show False by auto
    qed
    have "find_last_backup w s i l = find_last_backup w s (i + 1) (min i (mBackupsCount s - 1))"
      using True by (subst find_last_backup.simps) simp
    also have "\<dots> = (if k < i + 1 then min i (mBackupsCount s - 1) else min k (mBackupsCount s - 1))"
      using True ki "1.prems" by (intro "1.IH") auto
    also have "\<dots> = min k (mBackupsCount s - 1)"
      using ki by auto
    finally show ?thesis using ki by simp
  next
    case False
    have "k < i"
    proof (rule ccontr)
      assume "\<not> k < i"
      then have "i \<le> k" by simp
      with "1.prems"(3)[of i] "1.prems"(2) False show False by auto
    qed
    moreover have "find_last_backup w s i l = l"
      using False by (subst find_last_backup.simps) auto
    ultimately show ?thesis by simp
  qed
qed

lemma Size_rotate_fields [simp]:
  "locked (Size_rotate s w) = locked w" "cwd (Size_rotate s w) = cwd w"
  "osTime (Size_rotate s w) = osTime w"
  by (simp_all add: Size_rotate_def Let_def split_def)

lemma resolve_Size_rotate [simp]: "resolve (Size_rotate s w) x = resolve w x"
  by (simp add: resolve_def)

lemma Size_rotate_files:
  assumes n: "mBackupsCount s \<noteq> 0" and u: "locked w = {}" and p: "CHR ''%'' \<notin> set (mFileName s)"
  shows "map_of (files (Size_rotate s w)) =
         ((map_of (files (shift_up s (find_last_backup w s 1 0) w)))
            (resolve w (backupName s 1) := map_of (files w) (resolve w (mFileName s))))
           (resolve w (mFileName s) := None)"
proof -
  let ?w2 = "shift_up s (find_last_backup w s 1 0) w"
  let ?b = "resolve w (backupName s 1)"
  let ?P = "resolve w (mFileName s)"
  let ?w3 = "if QFile_exists ?w2 (backupName s 1) then snd (QFile_remove (backupName s 1) ?w2) else ?w2"
  have last: "0 \<le> find_last_backup w s 1 0"
    using find_last_backup_range[of 0 1 s w] by simp
  have f3: "map_of (files ?w3) = (map_of (files ?w2))(?b := None)"
    using u by (auto simp: remove_files QFile_exists_def lookup_def)
  have e3: "locked ?w3 = {}" "\<And>x. resolve ?w3 x = resolve w x"
    using u by (simp_all add: resolve_def)
  have fP: "map_of (files ?w2) ?P = map_of (files w) ?P"
    using u p backupPath_not_log[OF p, of w] by (intro shift_up_frame) (simp_all add: eq_commute)
  have ne: "?b \<noteq> ?P" by (rule backupPath_not_log[OF p])
  have "map_of (files (snd (QFile_rename (mFileName s) (backupName s 1) ?w3))) =
        ((map_of (files ?w3))(?b := map_of (files ?w3) ?P))(?P := None)"
    using rename_files[of ?w3 "mFileName s" "backupName s 1"] e3 f3 by simp
  also have "\<dots> = ((map_of (files ?w2))(?b := map_of (files w) ?P))(?P := None)"
    using ne fP by (simp add: f3)
  finally show ?thesis
    using n by (simp add: Size_rotate_def Let_def split_def)
qed

lemma Size_rotate_none:
  assumes "mBackupsCount s = 0"
  shows "Size_rotate s w =
         (if resolve w (mFileName s) \<notin> locked w \<and> lookup w (mFileName s) \<noteq> None
          then w\<lparr>files := AList.delete (resolve w (mFileName s)) (files w)\<rparr>
          else report (''QsLog: backup delete failed '' @ mFileName s) w)"
  using assms by (simp add: Size_rotate_def QFile_remove_def Let_def lookup_def)

lemma open_fields [simp]:
  "locked (snd (snd (QFile_open mode f w))) = locked w" "cwd (snd (snd (QFile_open mode f w))) = cwd w"
  "osTime (snd (snd (QFile_open mode f w))) = osTime w" "cerr (snd (snd (QFile_open mode f w))) = cerr w"
  "fileName (fst (snd (QFile_open mode f w))) = fileName f"
  by (simp_all add: QFile_open_def Let_def)

lemma resolve_open [simp]: "resolve (snd (snd (QFile_open mode f w))) x = resolve w x"
  by (simp add: resolve_def)

lemma open_result:
  "fst (QFile_open mode f w) = (\<not> isOpen f \<and> resolve w (fileName f) \<notin> locked w)"
  by (simp add: QFile_open_def Let_def)

lemma open_handle:
  "\<not> isOpen f \<Longrightarrow> resolve w (fileName f) \<notin> locked w \<Longrightarrow>
   fst (snd (QFile_open mode f w)) = f\<lparr>isOpen := True, openMode := mode\<rparr>"
  by (simp add: QFile_open_def Let_def)

lemma open_files:
  "\<not> isOpen f \<Longrightarrow> resolve w (fileName f) \<notin> locked w \<Longrightarrow>
   map_of (files (snd (snd (QFile_open mode f w)))) =
     (map_of (files w))(resolve w (fileName f) \<mapsto>
        (case map_of (files w) (resolve w (fileName f)) of
           None \<Rightarrow> \<lparr>content = [], lastModified = osTime w\<rparr>
         | Some old \<Rightarrow> if truncates mode then \<lparr>content = [], lastModified = osTime w\<rparr> else old))"
  by (simp add: QFile_open_def Let_def update_conv')

lemma put_fields [simp]:
  "locked (QTextStream_put f t w) = locked w" "cwd (QTextStream_put f t w) = cwd w"
  "osTime (QTextStream_put f t w) = osTime w" "cerr (QTextStream_put f t w) = cerr w"
  by (simp_all add: QTextStream_put_def split: option.splits)

lemma resolve_put [simp]: "resolve (QTextStream_put f t w) x = resolve w x"
  by (simp add: resolve_def)

lemma put_files:
  "isOpen f \<Longrightarrow> lookup w (fileName f) = Some x \<Longrightarrow>
   map_of (files (QTextStream_put f t w)) =
     (map_of (files w))(resolve w (fileName f) \<mapsto> x\<lparr>content := content x @ t, lastModified := osTime w\<rparr>)"
  by (simp add: QTextStream_put_def update_conv')

lemma put_closed: "\<not> isOpen f \<Longrightarrow> QTextStream_put f t w = w"
  by (simp add: QTextStream_put_def)

text \<open>After \<open>rotate\<close> the log file is gone, whatever the backup count.\<close>

lemma Size_rotate_log_gone:
  assumes u: "locked w = {}" and p: "CHR ''%'' \<notin> set (mFileName s)"
  shows "lookup (Size_rotate s w) (mFileName s) = None"
proof (cases "mBackupsCount s = 0")
  case True
  then show ?thesis
    using u by (auto simp: Size_rotate_none lookup_def delete_conv' resolve_def report_def)
next
  case False
  then show ?thesis
    using u p by (simp add: lookup_def Size_rotate_files)
qed

lemma Size_rotate_first_backup:
  assumes n: "mBackupsCount s \<noteq> 0" and u: "locked w = {}" and p: "CHR ''%'' \<notin> set (mFileName s)"
  shows "lookup (Size_rotate s w) (backupName s 1) = lookup w (mFileName s)"
  using backupPath_not_log[OF p, of w 1]
  by (simp add: lookup_def Size_rotate_files[OF n u p])

text \<open>The rotation inside \<open>write\<close>, on a file system without locked paths.\<close>

lemma FileDestination_rotate_fields [simp]:
  "locked (snd (FileDestination_rotate d w)) = locked w"
  "cwd (snd (FileDestination_rotate d w)) = cwd w"
  "fileName (mFile (fst (FileDestination_rotate d w))) = fileName (mFile d)"
  "mMaxSizeInBytes (mRotationStrategy (fst (FileDestination_rotate d w))) = mMaxSizeInBytes (mRotationStrategy d)"
  "mBackupsCount (mRotationStrategy (fst (FileDestination_rotate d w))) = mBackupsCount (mRotationStrategy d)"
  "mFileName (mRotationStrategy (fst (FileDestination_rotate d w))) = fileName (mFile d)"
  by (simp_all add: FileDestination_rotate_def Let_def split_def Size_setInitialInfo_def QFile_close_def)

lemma resolve_FileDestination_rotate [simp]:
  "resolve (snd (FileDestination_rotate d w)) x = resolve w x"
  by (simp add: resolve_def)

lemma FileDestination_rotate_ideal:
  assumes u: "locked w = {}" and p: "CHR ''%'' \<notin> set (mFileName (mRotationStrategy d))"
    and nm: "fileName (mFile d) = mFileName (mRotationStrategy d)"
  shows "isOpen (mFile (fst (FileDestination_rotate d w)))"
    and "openMode (mFile (fst (FileDestination_rotate d w))) = {WriteOnly, Text, Append}"
    and "cerr (snd (FileDestination_rotate d w)) = cerr (Size_rotate (mRotationStrategy d) w)"
    and "map_of (files (snd (FileDestination_rotate d w))) =
         (map_of (files (Size_rotate (mRotationStrategy d) w)))
           (resolve w (fileName (mFile d)) \<mapsto> \<lparr>content = [], lastModified = osTime w\<rparr>)"
    and "mCurrentSizeInBytes (mRotationStrategy (fst (FileDestination_rotate d w))) = 0"
proof -
  let ?s = "mRotationStrategy d"
  let ?w1 = "Size_rotate ?s w"
  let ?f0 = "QFile_close (mFile d)"
  let ?o = "QFile_open ({WriteOnly, Text} \<union> Size_recommendedOpenModeFlag) ?f0 ?w1"
  have c: "\<not> isOpen ?f0" "fileName ?f0 = fileName (mFile d)" by (simp_all add: QFile_close_def)
  have l: "resolve ?w1 (fileName ?f0) \<notin> locked ?w1" using u by simp
  have ok: "fst ?o" using c l by (simp add: open_result)
  have gone: "map_of (files ?w1) (resolve w (fileName (mFile d))) = None"
    using Size_rotate_log_gone[OF u p] nm by (simp add: lookup_def)
  have fs: "map_of (files (snd (snd ?o))) =
      (map_of (files ?w1))(resolve w (fileName (mFile d)) \<mapsto> \<lparr>content = [], lastModified = osTime w\<rparr>)"
    using open_files[OF c(1) l] gone c(2) by simp
  have h: "fst (snd ?o) = ?f0\<lparr>isOpen := True, openMode := {WriteOnly, Text} \<union> Size_recommendedOpenModeFlag\<rparr>"
    using open_handle[OF c(1) l] .
  show "isOpen (mFile (fst (FileDestination_rotate d w)))"
    using ok h by (simp add: FileDestination_rotate_def Let_def split_def)
  show "openMode (mFile (fst (FileDestination_rotate d w))) = {WriteOnly, Text, Append}"
    using ok h by (auto simp: FileDestination_rotate_def Let_def split_def Size_recommendedOpenModeFlag_def)
  show "cerr (snd (FileDestination_rotate d w)) = cerr ?w1"
    using ok by (simp add: FileDestination_rotate_def Let_def split_def)
  show fs': "map_of (files (snd (FileDestination_rotate d w))) =
         (map_of (files ?w1))(resolve w (fileName (mFile d)) \<mapsto> \<lparr>content = [], lastModified = osTime w\<rparr>)"
    using ok fs by (simp add: FileDestination_rotate_def Let_def split_def)
  show "mCurrentSizeInBytes (mRotationStrategy (fst (FileDestination_rotate d w))) = 0"
    using ok fs h c
    by (simp add: FileDestination_rotate_def Let_def split_def Size_setInitialInfo_def
        QFile_size_def lookup_def)
qed

text \<open>A write whose rotation test fails only appends to the open file.\<close>

lemma FileDestination_write_plain:
  assumes "\<not> Size_shouldRotate (Size_includeMessageInCalculation m (mRotationStrategy d))"
  shows "FileDestination_write m (d, w) =
         (d\<lparr>mRotationStrategy := Size_includeMessageInCalculation m (mRotationStrategy d)\<rparr>,
          QTextStream_put (mFile d) (m @ endl) w)"
  using assms by (simp add: FileDestination_write_def Let_def)

lemma FileDestination_write_rotating:
  assumes "Size_shouldRotate (Size_includeMessageInCalculation m (mRotationStrategy d))"
  shows "FileDestination_write m (d, w) =
         (fst (FileDestination_rotate
                 (d\<lparr>mRotationStrategy := Size_includeMessageInCalculation m (mRotationStrategy d)\<rparr>) w),
          QTextStream_put
            (mFile (fst (FileDestination_rotate
                 (d\<lparr>mRotationStrategy := Size_includeMessageInCalculation m (mRotationStrategy d)\<rparr>) w)))
            (m @ endl)
            (snd (FileDestination_rotate
                 (d\<lparr>mRotationStrategy := Size_includeMessageInCalculation m (mRotationStrategy d)\<rparr>) w)))"
  using assms by (simp add: FileDestination_write_def Let_def split_def)

lemma writes_below_threshold:
  assumes "isOpen (mFile d)" "lookup w (fileName (mFile d)) = Some x"
    and "mCurrentSizeInBytes (mRotationStrategy d) + (\<Sum>m\<leftarrow>msgs. int (length m))
           \<le> mMaxSizeInBytes (mRotationStrategy d)"
  shows "rotation_tests msgs (d, w) = replicate (length msgs) False \<and>
         mFile (fst (FileDestination_writes msgs (d, w))) = mFile d \<and>
         content_of (snd (FileDestination_writes msgs (d, w))) (fileName (mFile d)) =
           Some (content x @ concat (map (\<lambda>m. m @ endl) msgs)) \<and>
         (\<forall>y. y \<noteq> resolve w (fileName (mFile d)) \<longrightarrow>
              map_of (files (snd (FileDestination_writes msgs (d, w)))) y = map_of (files w) y) \<and>
         cerr (snd (FileDestination_writes msgs (d, w))) = cerr w"
  using assms
proof (induction msgs arbitrary: d w x)
  case Nil
  then show ?case by (simp add: content_of_def)
next
  case (Cons m ms)
  let ?s1 = "Size_includeMessageInCalculation m (mRotationStrategy d)"
  let ?d1 = "d\<lparr>mRotationStrategy := ?s1\<rparr>"
  let ?w1 = "QTextStream_put (mFile d) (m @ endl) w"
  let ?x1 = "x\<lparr>content := content x @ m @ endl, lastModified := osTime w\<rparr>"
  have nonneg: "0 \<le> (\<Sum>m\<leftarrow>ms. int (length m))" by (induction ms) simp_all
  have no: "\<not> Size_shouldRotate ?s1"
    using Cons.prems(3) nonneg
    by (simp add: Size_shouldRotate_def Size_includeMessageInCalculation_def)
  have step: "FileDestination_write m (d, w) = (?d1, ?w1)"
    using no by (rule FileDestination_write_plain)
  have f1: "map_of (files ?w1) = (map_of (files w))(resolve w (fileName (mFile d)) \<mapsto> ?x1)"
    using Cons.prems(1,2) by (simp add: put_files)
  have l1: "lookup ?w1 (fileName (mFile ?d1)) = Some ?x1"
    by (simp add: lookup_def f1)
  have b1: "mCurrentSizeInBytes (mRotationStrategy ?d1) + (\<Sum>m\<leftarrow>ms. int (length m))
           \<le> mMaxSizeInBytes (mRotationStrategy ?d1)"
    using Cons.prems(3) by (simp add: Size_includeMessageInCalculation_def)
  have o1: "isOpen (mFile ?d1)" using Cons.prems(1) by simp
  note ih = Cons.IH[OF o1 l1 b1]
  show ?case
    using ih no by (simp add: step f1)
qed

lemma QString_number_1: "QString_number 1 = ''1''"
  by (simp add: QString_number_def digits.simps digit_char_def)

lemma backupName_1: "CHR ''%'' \<notin> set (mFileName s) \<Longrightarrow> backupName s 1 = mFileName s @ ''.1''"
  by (simp add: backupName_plain QString_number_1)

lemma include_fields [simp]:
  "mFileName (Size_includeMessageInCalculation m s) = mFileName s"
  "mBackupsCount (Size_includeMessageInCalculation m s) = mBackupsCount s"
  "mMaxSizeInBytes (Size_includeMessageInCalculation m s) = mMaxSizeInBytes s"
  "backupName (Size_includeMessageInCalculation m s) j = backupName s j"
  by (simp_all add: Size_includeMessageInCalculation_def backupName_def)

text \<open>A rotating write on a file system without locked paths: the files are those
  \<open>rotate\<close> left, and the log file holds the message alone.\<close>

lemma FileDestination_write_ideal:
  assumes t: "Size_shouldRotate (Size_includeMessageInCalculation m (mRotationStrategy d))"
    and u: "locked w = {}" and p: "CHR ''%'' \<notin> set (mFileName (mRotationStrategy d))"
    and nm: "fileName (mFile d) = mFileName (mRotationStrategy d)"
  shows "map_of (files (snd (FileDestination_write m (d, w)))) =
         (map_of (files (Size_rotate (Size_includeMessageInCalculation m (mRotationStrategy d)) w)))
           (resolve w (fileName (mFile d)) \<mapsto> \<lparr>content = m @ endl, lastModified = osTime w\<rparr>)"
    and "isOpen (mFile (fst (FileDestination_write m (d, w))))"
    and "fileName (mFile (fst (FileDestination_write m (d, w)))) = fileName (mFile d)"
    and "mFileName (mRotationStrategy (fst (FileDestination_write m (d, w)))) = fileName (mFile d)"
    and "mBackupsCount (mRotationStrategy (fst (FileDestination_write m (d, w)))) = mBackupsCount (mRotationStrategy d)"
    and "mMaxSizeInBytes (mRotationStrategy (fst (FileDestination_write m (d, w)))) = mMaxSizeInBytes (mRotationStrategy d)"
    and "mCurrentSizeInBytes (mRotationStrategy (fst (FileDestination_write m (d, w)))) = 0"
    and "locked (snd (FileDestination_write m (d, w))) = {}"
    and "cwd (snd (FileDestination_write m (d, w))) = cwd w"
proof -
  let ?d1 = "d\<lparr>mRotationStrategy := Size_includeMessageInCalculation m (mRotationStrategy d)\<rparr>"
  let ?r = "FileDestination_rotate ?d1 w"
  have w: "FileDestination_write m (d, w) = (fst ?r, QTextStream_put (mFile (fst ?r)) (m @ endl) (snd ?r))"
    using t by (rule FileDestination_write_rotating)
  have p1: "CHR ''%'' \<notin> set (mFileName (mRotationStrategy ?d1))" using p by simp
  have nm1: "fileName (mFile ?d1) = mFileName (mRotationStrategy ?d1)" using nm by simp
  note id = FileDestination_rotate_ideal[OF u p1 nm1]
  have fr: "map_of (files (snd ?r)) =
      (map_of (files (Size_rotate (Size_includeMessageInCalculation m (mRotationStrategy d)) w)))
        (resolve w (fileName (mFile d)) \<mapsto> \<lparr>content = [], lastModified = osTime w\<rparr>)"
    using id(4) by simp
  have lk: "lookup (snd ?r) (fileName (mFile (fst ?r))) = Some \<lparr>content = [], lastModified = osTime w\<rparr>"
    by (simp add: lookup_def fr)
  have "map_of (files (QTextStream_put (mFile (fst ?r)) (m @ endl) (snd ?r))) =
        (map_of (files (snd ?r)))(resolve (snd ?r) (fileName (mFile (fst ?r))) \<mapsto>
           \<lparr>content = [], lastModified = osTime w\<rparr>\<lparr>content := content \<lparr>content = [], lastModified = osTime w\<rparr> @ m @ endl,
              lastModified := osTime (snd ?r)\<rparr>)"
    using put_files[OF id(1) lk] .
  moreover have "osTime (snd ?r) = osTime w"
    by (simp add: FileDestination_rotate_def Let_def split_def)
  ultimately show "map_of (files (snd (FileDestination_write m (d, w)))) =
         (map_of (files (Size_rotate (Size_includeMessageInCalculation m (mRotationStrategy d)) w)))
           (resolve w (fileName (mFile d)) \<mapsto> \<lparr>content = m @ endl, lastModified = osTime w\<rparr>)"
    by (simp add: w fr)
  show "isOpen (mFile (fst (FileDestination_write m (d, w))))" using id(1) by (simp add: w)
  show "fileName (mFile (fst (FileDestination_write m (d, w)))) = fileName (mFile d)" by (simp add: w)
  show "mFileName (mRotationStrategy (fst (FileDestination_write m (d, w)))) = fileName (mFile d)" by (simp add: w)
  show "mBackupsCount (mRotationStrategy (fst (FileDestination_write m (d, w)))) = mBackupsCount (mRotationStrategy d)"
    by (simp add: w)
  show "mMaxSizeInBytes (mRotationStrategy (fst (FileDestination_write m (d, w)))) = mMaxSizeInBytes (mRotationStrategy d)"
    by (simp add: w)
  show "mCurrentSizeInBytes (mRotationStrategy (fst (FileDestination_write m (d, w)))) = 0"
    using id(5) by (simp add: w)
  show "locked (snd (FileDestination_write m (d, w))) = {}" using u by (simp add: w)
  show "cwd (snd (FileDestination_write m (d, w))) = cwd w" by (simp add: w)
qed

lemma find_last_backup_grows:
  "l \<le> min i (mBackupsCount s - 1) \<Longrightarrow> l \<le> find_last_backup w s i l"
proof (induction w s i l rule: find_last_backup.induct)
  case (1 w s i l)
  show ?case
  proof (cases "i \<le> mBackupsCount s \<and> QFile_exists w (backupName s i)")
    case True
    have "min i (mBackupsCount s - 1) \<le> find_last_backup w s (i + 1) (min i (mBackupsCount s - 1))"
      using True by (intro "1.IH") auto
    moreover have "find_last_backup w s i l = find_last_backup w s (i + 1) (min i (mBackupsCount s - 1))"
      using True by (subst find_last_backup.simps) simp
    ultimately show ?thesis using "1.prems" by arith
  next
    case False
    then have "find_last_backup w s i l = l"
      by (subst find_last_backup.simps) auto
    then show ?thesis by simp
  qed
qed

text \<open>With the backups \<open>i .. h\<close> present the scan gets at least to
  \<open>min h (mBackupsCount - 1)\<close>.\<close>

lemma find_last_backup_reaches:
  assumes "i \<le> h" "h \<le> mBackupsCount s"
    and "\<And>j. i \<le> j \<Longrightarrow> j \<le> h \<Longrightarrow> QFile_exists w (backupName s j)"
  shows "min h (mBackupsCount s - 1) \<le> find_last_backup w s i l"
  using assms
proof (induction w s i l rule: find_last_backup.induct)
  case (1 w s i l)
  have e: "i \<le> mBackupsCount s" "QFile_exists w (backupName s i)"
    using "1.prems" by auto
  have step: "find_last_backup w s i l = find_last_backup w s (i + 1) (min i (mBackupsCount s - 1))"
    using e by (subst find_last_backup.simps) simp
  show ?case
  proof (cases "i = h")
    case True
    have "min i (mBackupsCount s - 1) \<le> find_last_backup w s (i + 1) (min i (mBackupsCount s - 1))"
      by (rule find_last_backup_grows) arith
    then show ?thesis using True step by simp
  next
    case False
    have "min h (mBackupsCount s - 1) \<le> find_last_backup w s (i + 1) (min i (mBackupsCount s - 1))"
      using e False "1.prems" by (intro "1.IH") auto
    then show ?thesis using step by simp
  qed
qed

text \<open>One rotation of the chain: what the log file and the backups \<open>1 .. min n N\<close> held
  is found one index higher, no backup appears beyond \<open>N\<close>.\<close>

lemma Size_rotate_chain:
  assumes n: "1 \<le> mBackupsCount s" and u: "locked w = {}" and p: "CHR ''%'' \<notin> set (mFileName s)"
    and cur: "content_of w (mFileName s) = Some c"
    and hist: "\<And>j. 1 \<le> j \<Longrightarrow> j \<le> min (int (length h)) (mBackupsCount s) \<Longrightarrow>
                 content_of w (backupName s j) = Some (h ! nat (j - 1))"
    and top: "\<And>j. mBackupsCount s < j \<Longrightarrow> lookup w (backupName s j) = None"
  shows "lookup (Size_rotate s w) (mFileName s) = None"
    and "\<And>j. 1 \<le> j \<Longrightarrow> j \<le> min (int (length (c # h))) (mBackupsCount s) \<Longrightarrow>
           content_of (Size_rotate s w) (backupName s j) = Some ((c # h) ! nat (j - 1))"
    and "\<And>j. mBackupsCount s < j \<Longrightarrow> lookup (Size_rotate s w) (backupName s j) = None"
proof -
  let ?N = "mBackupsCount s"
  let ?last = "find_last_backup w s 1 0"
  let ?w2 = "shift_up s ?last w"
  have n0: "?N \<noteq> 0" using n by simp
  note fs = Size_rotate_files[OF n0 u p]
  have rng: "0 \<le> ?last" "?last \<le> ?N - 1"
    using find_last_backup_range[of 0 1 s w] n by simp_all
  have reach: "min (int (length h)) (?N - 1) \<le> ?last"
  proof (cases "h = []")
    case True
    then show ?thesis using rng n by simp
  next
    case False
    let ?k = "min (int (length h)) ?N"
    have k1: "1 \<le> ?k" using False n by (cases h) simp_all
    have "min ?k (?N - 1) \<le> ?last"
    proof (rule find_last_backup_reaches)
      fix j assume "1 \<le> j" "j \<le> ?k"
      then have "content_of w (backupName s j) = Some (h ! nat (j - 1))" by (rule hist)
      then show "QFile_exists w (backupName s j)"
        by (auto simp: QFile_exists_def content_of_def)
    qed (use k1 in simp_all)
    then show ?thesis by simp
  qed
  show "lookup (Size_rotate s w) (mFileName s) = None"
    by (rule Size_rotate_log_gone[OF u p])
  show "content_of (Size_rotate s w) (backupName s j) = Some ((c # h) ! nat (j - 1))"
    if j: "1 \<le> j" "j \<le> min (int (length (c # h))) ?N" for j
  proof (cases "j = 1")
    case True
    then show ?thesis
      using Size_rotate_first_backup[OF n0 u p] cur by (simp add: content_of_def)
  next
    case False
    have jl: "j \<le> 1 + int (length h)" "j \<le> ?N" using j by simp_all
    have j2: "1 \<le> j - 1" "j - 1 \<le> ?last" "j - 1 \<le> min (int (length h)) ?N"
    proof -
      show "1 \<le> j - 1" using False j(1) by simp
      show "j - 1 \<le> ?last" using jl reach by arith
      show "j - 1 \<le> min (int (length h)) ?N" using jl by simp
    qed
    have ne1: "resolve w (backupName s j) \<noteq> resolve w (backupName s 1)"
      using backupPath_inj[OF p, of j 1 w w] False j by auto
    have neP: "resolve w (backupName s j) \<noteq> resolve w (mFileName s)"
      by (rule backupPath_not_log[OF p])
    have "map_of (files (Size_rotate s w)) (resolve w (backupName s j)) =
          map_of (files ?w2) (resolve w (backupName s (j - 1 + 1)))"
      using ne1 neP by (simp add: fs)
    also have "\<dots> = map_of (files w) (resolve w (backupName s (j - 1)))"
      using j2 by (intro shift_up_moves[OF u p]) simp_all
    finally have "lookup (Size_rotate s w) (backupName s j) = lookup w (backupName s (j - 1))"
      by (simp add: lookup_def)
    moreover have "content_of w (backupName s (j - 1)) = Some (h ! nat (j - 1 - 1))"
      using j2 by (intro hist) simp_all
    moreover have "nat (j - 1) = Suc (nat (j - 1 - 1))"
      using j2(1) by arith
    then have "(c # h) ! nat (j - 1) = h ! nat (j - 1 - 1)"
      by (simp only: nth_Cons_Suc)
    ultimately show ?thesis by (simp add: content_of_def)
  qed
  show "lookup (Size_rotate s w) (backupName s j) = None" if j: "?N < j" for j
  proof -
    have ne1: "resolve w (backupName s j) \<noteq> resolve w (backupName s 1)"
      using backupPath_inj[OF p, of j 1 w w] j n by auto
    have neP: "resolve w (backupName s j) \<noteq> resolve w (mFileName s)"
      by (rule backupPath_not_log[OF p])
    have "map_of (files (Size_rotate s w)) (resolve w (backupName s j)) =
          map_of (files ?w2) (resolve w (backupName s j))"
      using ne1 neP by (simp add: fs)
    also have "\<dots> = map_of (files w) (resolve w (backupName s j))"
    proof (rule shift_up_frame[OF u p])
      fix k assume "1 \<le> k" "k \<le> ?last + 1"
      then show "resolve w (backupName s j) \<noteq> resolve w (backupName s k)"
        using backupPath_inj[OF p, of j k w w] j rng n by auto
    qed
    finally show ?thesis using top[OF j] by (simp add: lookup_def)
  qed
qed

lemma chain_cong:
  "mFileName s' = mFileName s \<Longrightarrow> mBackupsCount s' = mBackupsCount s \<Longrightarrow> chain s' w c h = chain s w c h"
  by (simp add: chain_def backupName_def)

lemma FileDestination_write_chain:
  assumes t: "Size_shouldRotate (Size_includeMessageInCalculation m (mRotationStrategy d))"
    and n: "1 \<le> mBackupsCount (mRotationStrategy d)"
    and u: "locked w = {}" and p: "CHR ''%'' \<notin> set (mFileName (mRotationStrategy d))"
    and nm: "fileName (mFile d) = mFileName (mRotationStrategy d)"
    and ch: "chain (mRotationStrategy d) w c h"
  shows "chain (mRotationStrategy d) (snd (FileDestination_write m (d, w))) (m @ endl) (c # h)"
proof -
  let ?s = "mRotationStrategy d"
  let ?s1 = "Size_includeMessageInCalculation m ?s"
  let ?w' = "snd (FileDestination_write m (d, w))"
  note id = FileDestination_write_ideal[OF t u p nm]
  have r: "\<And>x. resolve ?w' x = resolve w x"
    using id(9) by (simp add: resolve_def)
  have n1: "1 \<le> mBackupsCount ?s1" and p1: "CHR ''%'' \<notin> set (mFileName ?s1)"
    using n p by simp_all
  have cur: "content_of w (mFileName ?s1) = Some c"
    using ch by (simp add: chain_def)
  have hist: "\<And>j. 1 \<le> j \<Longrightarrow> j \<le> min (int (length h)) (mBackupsCount ?s1) \<Longrightarrow>
                 content_of w (backupName ?s1 j) = Some (h ! nat (j - 1))"
    using ch by (simp add: chain_def)
  have top: "\<And>j. mBackupsCount ?s1 < j \<Longrightarrow> lookup w (backupName ?s1 j) = None"
    using ch by (simp add: chain_def)
  note rc = Size_rotate_chain[OF n1 u p1 cur hist top]
  have bk: "lookup ?w' (backupName ?s j) = lookup (Size_rotate ?s1 w) (backupName ?s j)" for j
    using backupPath_not_log[OF p, of w j] nm by (simp add: lookup_def r id(1))
  have a: "content_of ?w' (mFileName ?s) = Some (m @ endl)"
    using nm by (simp add: content_of_def lookup_def r id(1))
  have b: "content_of ?w' (backupName ?s j) = Some ((c # h) ! nat (j - 1))"
    if "1 \<le> j" "j \<le> min (int (length (c # h))) (mBackupsCount ?s)" for j
    using rc(2)[of j] that bk[of j] by (simp add: content_of_def)
  have c: "lookup ?w' (backupName ?s j) = None" if "mBackupsCount ?s < j" for j
    using rc(3)[of j] that bk[of j] by simp
  show ?thesis
    unfolding chain_def using a b c by blast
qed

lemma writes_chain:
  assumes "\<forall>m\<in>set msgs. mMaxSizeInBytes (mRotationStrategy d) < int (length m)"
    and "0 \<le> mCurrentSizeInBytes (mRotationStrategy d)"
    and "1 \<le> mBackupsCount (mRotationStrategy d)"
    and "locked w = {}" and "CHR ''%'' \<notin> set (mFileName (mRotationStrategy d))"
    and "fileName (mFile d) = mFileName (mRotationStrategy d)"
    and "chain (mRotationStrategy d) w c h"
  shows "rotation_tests msgs (d, w) = replicate (length msgs) True \<and>
         chain (mRotationStrategy d) (snd (FileDestination_writes msgs (d, w)))
           (last (c # map (\<lambda>m. m @ endl) msgs))
           (rev (butlast (c # map (\<lambda>m. m @ endl) msgs)) @ h)"
  using assms
proof (induction msgs arbitrary: d w c h)
  case Nil
  then show ?case by simp
next
  case (Cons m ms)
  let ?s = "mRotationStrategy d"
  let ?dw = "FileDestination_write m (d, w)"
  have t: "Size_shouldRotate (Size_includeMessageInCalculation m ?s)"
    using Cons.prems(1,2) by (simp add: Size_shouldRotate_def Size_includeMessageInCalculation_def)
  note id = FileDestination_write_ideal[OF t Cons.prems(4,5,6)]
  have ch1: "chain ?s (snd ?dw) (m @ endl) (c # h)"
    by (rule FileDestination_write_chain[OF t Cons.prems(3,4,5,6,7)])
  have same: "mFileName (mRotationStrategy (fst ?dw)) = mFileName ?s"
    "mBackupsCount (mRotationStrategy (fst ?dw)) = mBackupsCount ?s"
    using id(4,5) Cons.prems(6) by simp_all
  have ih: "rotation_tests ms (fst ?dw, snd ?dw) = replicate (length ms) True \<and>
         chain (mRotationStrategy (fst ?dw)) (snd (FileDestination_writes ms (fst ?dw, snd ?dw)))
           (last ((m @ endl) # map (\<lambda>m. m @ endl) ms))
           (rev (butlast ((m @ endl) # map (\<lambda>m. m @ endl) ms)) @ c # h)"
  proof (rule Cons.IH)
    show "\<forall>m\<in>set ms. mMaxSizeInBytes (mRotationStrategy (fst ?dw)) < int (length m)"
      using Cons.prems(1) id(6) by simp
    show "0 \<le> mCurrentSizeInBytes (mRotationStrategy (fst ?dw))" using id(7) by simp
    show "1 \<le> mBackupsCount (mRotationStrategy (fst ?dw))" using Cons.prems(3) same by simp
    show "locked (snd ?dw) = {}" by (rule id(8))
    show "CHR ''%'' \<notin> set (mFileName (mRotationStrategy (fst ?dw)))" using Cons.prems(5) same by simp
    show "fileName (mFile (fst ?dw)) = mFileName (mRotationStrategy (fst ?dw))" using id(3,4) by simp
    show "chain (mRotationStrategy (fst ?dw)) (snd ?dw) (m @ endl) (c # h)"
      using ch1 chain_cong[OF same] by simp
  qed
  have "rotation_tests (m # ms) (d, w) = True # rotation_tests ms ?dw"
    using t by simp
  then show ?case
    using ih chain_cong[OF same] by simp
qed

lemma Size_rotate_moves:
  assumes n: "mBackupsCount s \<noteq> 0" and u: "locked w = {}" and p: "CHR ''%'' \<notin> set (mFileName s)"
    and j: "1 \<le> j" "j \<le> find_last_backup w s 1 0"
  shows "lookup (Size_rotate s w) (backupName s (j + 1)) = lookup w (backupName s j)"
proof -
  have ne1: "resolve w (backupName s (j + 1)) \<noteq> resolve w (backupName s 1)"
    using backupPath_inj[OF p, of "j + 1" 1 w w] j by auto
  have neP: "resolve w (backupName s (j + 1)) \<noteq> resolve w (mFileName s)"
    by (rule backupPath_not_log[OF p])
  show ?thesis
    using ne1 neP shift_up_moves[OF u p j]
    by (simp add: lookup_def Size_rotate_files[OF n u p])
qed

text \<open>The example states, field by field.\<close>

lemma s_two_fields:
  "mFileName s_two = ''app.log''" "mBackupsCount s_two = 2"
  "mMaxSizeInBytes s_two = 3" "mCurrentSizeInBytes s_two = 3"
  by (simp_all add: s_two_def)

lemma d_two_fields:
  "mRotationStrategy d_two = s_two" "fileName (mFile d_two) = ''app.log''" "isOpen (mFile d_two)"
  by (simp_all add: d_two_def)

lemma d_roomy_fields:
  "fileName (mFile d_roomy) = ''app.log''" "isOpen (mFile d_roomy)"
  "mMaxSizeInBytes (mRotationStrategy d_roomy) = 100"
  "mCurrentSizeInBytes (mRotationStrategy d_roomy) = 3"
  by (simp_all add: d_roomy_def d_two_def s_two_def)

lemma w_log_fields:
  "locked w_log = {}" "cerr w_log = []"
  "lookup w_log ''app.log'' = Some \<lparr>content = ''old'', lastModified = 7\<rparr>"
  by (simp_all add: w_log_def lookup_def resolve_def)

text \<open>The daily deadline.\<close>

lemma next_rotation_tp_valid:
  assumes "0 \<le> h" "h < 24" "0 \<le> m" "m < 60"
  shows "next_rotation_tp nowdt h m =
         \<lparr>julianDay = julianDay nowdt + 1, msecsOfDay = (h * 3600 + m * 60) * 1000\<rparr>"
  using assms
  by (simp add: next_rotation_tp_def QDateTime_addDays_def QDateTime_setTime_def QTime_setHMS_def)

lemma next_rotation_tp_ahead:
  assumes "valid_dt nowdt"
  shows "QDateTime_gt (next_rotation_tp nowdt h m) nowdt"
proof -
  have "0 \<le> (case QTime_setHMS h m 0 of None \<Rightarrow> 0 | Some ms \<Rightarrow> ms)"
    by (auto simp: QTime_setHMS_def)
  then show ?thesis
    using assms
    by (simp add: next_rotation_tp_def QDateTime_addDays_def QDateTime_setTime_def
        QDateTime_gt_def toMSecs_def valid_dt_def algebra_simps)
qed

lemma Daily_calls_append:
  "Daily_calls (xs @ ys) s =
     (fst (Daily_calls xs s) @ fst (Daily_calls ys (snd (Daily_calls xs s))),
      snd (Daily_calls ys (snd (Daily_calls xs s))))"
proof (induction xs arbitrary: s)
  case Nil
  show ?case by simp
next
  case (Cons a xs)
  then show ?case by (cases a) (simp add: split_def Let_def)
qed

lemma Daily_calls_not_due:
  "\<forall>x\<in>set ts. \<not> QDateTime_gt (fst x) (rotation_tp s) \<Longrightarrow>
   Daily_calls ts s = (replicate (length ts) False, s)"
proof (induction ts)
  case Nil
  show ?case by simp
next
  case (Cons a ts)
  then show ?case by (cases a) (simp add: Daily_shouldRotate_def split_def Let_def)
qed

text \<open>The daily rotation leaves the environment alone.\<close>

lemma remove_from_fields [simp]:
  "locked (remove_from results i w) = locked w" "cwd (remove_from results i w) = cwd w"
  "osTime (remove_from results i w) = osTime w" "cerr (remove_from results i w) = cerr w"
  by (induction results i w rule: remove_from.induct; subst remove_from.simps; simp)+

lemma Daily_rotate_fields [simp]:
  "locked (Daily_rotate t s w) = locked w" "cwd (Daily_rotate t s w) = cwd w"
  "osTime (Daily_rotate t s w) = osTime w" "cerr (Daily_rotate t s w) = cerr w"
  by (simp_all add: Daily_rotate_def Let_def)

lemma resolve_Daily_rotate [simp]: "resolve (Daily_rotate t s w) x = resolve w x"
  by (simp add: resolve_def)

lemma resolve_files_update [simp]: "resolve (w\<lparr>files := X\<rparr>) x = resolve w x"
  by (simp add: resolve_def)

text \<open>No rotation creates a backup beyond the backup count.\<close>

lemma Size_rotate_top:
  assumes n: "0 \<le> mBackupsCount s" and u: "locked w = {}" and p: "CHR ''%'' \<notin> set (mFileName s)"
    and top: "\<And>j. mBackupsCount s < j \<Longrightarrow> lookup w (backupName s j) = None"
    and j: "mBackupsCount s < j"
  shows "lookup (Size_rotate s w) (backupName s j) = None"
proof (cases "mBackupsCount s = 0")
  case True
  have "resolve w (backupName s j) \<noteq> resolve w (mFileName s)"
    by (rule backupPath_not_log[OF p])
  then show ?thesis
    using top[OF j] by (auto simp: Size_rotate_none[OF True] lookup_def delete_conv')
next
  case False
  then have n1: "1 \<le> mBackupsCount s" using n by simp
  have rng: "0 \<le> find_last_backup w s 1 0" "find_last_backup w s 1 0 \<le> mBackupsCount s - 1"
    using find_last_backup_range[of 0 1 s w] n1 by simp_all
  have ne1: "resolve w (backupName s j) \<noteq> resolve w (backupName s 1)"
    using backupPath_inj[OF p, of j 1 w w] j n1 by auto
  have neP: "resolve w (backupName s j) \<noteq> resolve w (mFileName s)"
    by (rule backupPath_not_log[OF p])
  have "map_of (files (Size_rotate s w)) (resolve w (backupName s j)) =
        map_of (files (shift_up s (find_last_backup w s 1 0) w)) (resolve w (backupName s j))"
    using ne1 neP by (simp add: Size_rotate_files[OF False u p])
  also have "\<dots> = map_of (files w) (resolve w (backupName s j))"
  proof (rule shift_up_frame[OF u p])
    fix k assume "1 \<le> k" "k \<le> find_last_backup w s 1 0 + 1"
    then show "resolve w (backupName s j) \<noteq> resolve w (backupName s k)"
      using backupPath_inj[OF p, of j k w w] j rng n1 by auto
  qed
  finally show ?thesis using top[OF j] by (simp add: lookup_def)
qed

lemma put_other:
  "x \<noteq> resolve w (fileName f) \<Longrightarrow> map_of (files (QTextStream_put f t w)) x = map_of (files w) x"
  by (simp add: QTextStream_put_def update_conv' split: option.splits)

lemma FileDestination_write_top:
  assumes n: "0 \<le> mBackupsCount (mRotationStrategy d)" and u: "locked w = {}"
    and p: "CHR ''%'' \<notin> set (mFileName (mRotationStrategy d))"
    and nm: "fileName (mFile d) = mFileName (mRotationStrategy d)"
    and top: "\<And>j. mBackupsCount (mRotationStrategy d) < j \<Longrightarrow>
                lookup w (backupName (mRotationStrategy d) j) = None"
  shows "\<And>j. mBackupsCount (mRotationStrategy d) < j \<Longrightarrow>
           lookup (snd (FileDestination_write m (d, w))) (backupName (mRotationStrategy d) j) = None"
    and "locked (snd (FileDestination_write m (d, w))) = {}"
    and "cwd (snd (FileDestination_write m (d, w))) = cwd w"
    and "fileName (mFile (fst (FileDestination_write m (d, w)))) = fileName (mFile d)"
    and "mFileName (mRotationStrategy (fst (FileDestination_write m (d, w)))) = mFileName (mRotationStrategy d)"
    and "mBackupsCount (mRotationStrategy (fst (FileDestination_write m (d, w)))) =
           mBackupsCount (mRotationStrategy d)"
proof -
  let ?s = "mRotationStrategy d"
  let ?s1 = "Size_includeMessageInCalculation m ?s"
  let ?dw = "FileDestination_write m (d, w)"
  have all: "(\<forall>j. mBackupsCount ?s < j \<longrightarrow> lookup (snd ?dw) (backupName ?s j) = None) \<and>
      locked (snd ?dw) = {} \<and> cwd (snd ?dw) = cwd w \<and>
      fileName (mFile (fst ?dw)) = fileName (mFile d) \<and>
      mFileName (mRotationStrategy (fst ?dw)) = mFileName ?s \<and>
      mBackupsCount (mRotationStrategy (fst ?dw)) = mBackupsCount ?s"
  proof (cases "Size_shouldRotate ?s1")
    case True
    note id = FileDestination_write_ideal[OF True u p nm]
    have r: "\<And>x. resolve (snd ?dw) x = resolve w x"
      using id(9) by (simp add: resolve_def)
    have "lookup (snd ?dw) (backupName ?s j) = None" if j: "mBackupsCount ?s < j" for j
    proof -
      have "lookup (Size_rotate ?s1 w) (backupName ?s1 j) = None"
        using n u p top j by (intro Size_rotate_top) simp_all
      then show ?thesis
        using backupPath_not_log[OF p, of w j] nm by (simp add: lookup_def r id(1))
    qed
    then show ?thesis using id nm by simp
  next
    case False
    have w: "?dw = (d\<lparr>mRotationStrategy := ?s1\<rparr>, QTextStream_put (mFile d) (m @ endl) w)"
      using False by (rule FileDestination_write_plain)
    have "lookup (snd ?dw) (backupName ?s j) = None" if j: "mBackupsCount ?s < j" for j
      using backupPath_not_log[OF p, of w j] nm top[OF j]
      by (simp add: w lookup_def put_other)
    then show ?thesis using u by (simp add: w)
  qed
  show "\<And>j. mBackupsCount ?s < j \<Longrightarrow> lookup (snd ?dw) (backupName ?s j) = None"
    using all by blast
  show "locked (snd ?dw) = {}" using all by blast
  show "cwd (snd ?dw) = cwd w" using all by blast
  show "fileName (mFile (fst ?dw)) = fileName (mFile d)" using all by blast
  show "mFileName (mRotationStrategy (fst ?dw)) = mFileName ?s" using all by blast
  show "mBackupsCount (mRotationStrategy (fst ?dw)) = mBackupsCount ?s" using all by blast
qed

lemma backupName_cong:
  "mFileName s' = mFileName s \<Longrightarrow> backupName s' j = backupName s j"
  by (simp add: backupName_def)

lemma writes_top:
  assumes "0 \<le> mBackupsCount (mRotationStrategy d)" and "locked w = {}"
    and "CHR ''%'' \<notin> set (mFileName (mRotationStrategy d))"
    and "fileName (mFile d) = mFileName (mRotationStrategy d)"
    and "\<forall>j. mBackupsCount (mRotationStrategy d) < j \<longrightarrow>
            lookup w (backupName (mRotationStrategy d) j) = None"
  shows "\<forall>j. mBackupsCount (mRotationStrategy d) < j \<longrightarrow>
           lookup (snd (FileDestination_writes ms (d, w))) (backupName (mRotationStrategy d) j) = None"
  using assms
proof (induction ms arbitrary: d w)
  case Nil
  then show ?case by simp
next
  case (Cons m ms)
  let ?s = "mRotationStrategy d"
  let ?dw = "FileDestination_write m (d, w)"
  have top: "\<And>j. mBackupsCount ?s < j \<Longrightarrow> lookup w (backupName ?s j) = None"
    using Cons.prems(5) by blast
  note wt = FileDestination_write_top[OF Cons.prems(1,2,3,4) top, where m = m]
  have bn: "\<And>j. backupName (mRotationStrategy (fst ?dw)) j = backupName ?s j"
    by (rule backupName_cong[OF wt(5)])
  have "\<forall>j. mBackupsCount (mRotationStrategy (fst ?dw)) < j \<longrightarrow>
           lookup (snd (FileDestination_writes ms (fst ?dw, snd ?dw)))
             (backupName (mRotationStrategy (fst ?dw)) j) = None"
  proof (rule Cons.IH)
    show "0 \<le> mBackupsCount (mRotationStrategy (fst ?dw))" using Cons.prems(1) wt(6) by simp
    show "locked (snd ?dw) = {}" by (rule wt(2))
    show "CHR ''%'' \<notin> set (mFileName (mRotationStrategy (fst ?dw)))" using Cons.prems(3) wt(5) by simp
    show "fileName (mFile (fst ?dw)) = mFileName (mRotationStrategy (fst ?dw))"
      using Cons.prems(4) wt(4,5) by simp
    show "\<forall>j. mBackupsCount (mRotationStrategy (fst ?dw)) < j \<longrightarrow>
            lookup (snd ?dw) (backupName (mRotationStrategy (fst ?dw)) j) = None"
      using wt(1) by (simp add: bn wt(6))
  qed
  then show ?case by (simp add: bn wt(6))
qed

text \<open>The dated file name.\<close>

lemma QString_arg_prefix:
  assumes "CHR ''%'' \<notin> set p"
  shows "QString_arg (p @ s) a = p @ QString_arg s a"
  using assms
  by (cases "escapes (pieces s)")
     (simp_all add: QString_arg_def pieces_plain escapes_plain replace_escapes_plain)

lemma digit_char_no_percent: "d < 10 \<Longrightarrow> digit_char d \<noteq> CHR ''%''"
proof -
  assume "d < 10"
  then have "digit_char d \<in> set ''0123456789''"
    unfolding digit_char_def by (intro nth_mem) simp
  then show ?thesis by auto
qed

lemma digits_no_percent: "CHR ''%'' \<notin> set (digits n)"
proof (induction n rule: digits.induct)
  case (1 n)
  show ?case
  proof (cases "n < 10")
    case True
    then show ?thesis
      using digit_char_no_percent[of n] by (subst digits.simps) auto
  next
    case False
    then show ?thesis
      using "1.IH" digit_char_no_percent[of "n mod 10"] by (subst digits.simps) auto
  qed
qed

lemma QString_number_no_percent: "CHR ''%'' \<notin> set (QString_number i)"
  by (simp add: QString_number_def digits_no_percent)

lemma QString_split_none: "sep \<notin> set b \<Longrightarrow> QString_split sep b = [b]"
  by (induction b) (auto simp: Let_def)

lemma QString_split_first:
  "sep \<notin> set b \<Longrightarrow> QString_split sep (b @ sep # r) = b # QString_split sep r"
  by (induction b) (auto simp: Let_def)

lemma template_steps:
  "QString_arg ''%1_%2_%3_%4.%5'' a = a @ ''_%2_%3_%4.%5''"
  "QString_arg ''_%2_%3_%4.%5'' a = ''_'' @ a @ ''_%3_%4.%5''"
  "QString_arg ''_%3_%4.%5'' a = ''_'' @ a @ ''_%4.%5''"
  "QString_arg ''_%4.%5'' a = ''_'' @ a @ ''.%5''"
  "QString_arg ''.%5'' a = ''.'' @ a"
  by (simp_all add: QString_arg_def escape_at_def digitValue_def)

text \<open>What \<open>calc_filename\<close> computes in general: of the parts between the dots only the
  first two enter the result.\<close>

lemma calc_filename_parts:
  assumes "QString_split CHR ''.'' name = b # e # rest" and "CHR ''%'' \<notin> set b"
  shows "calc_filename name dt =
         b @ ''_'' @ QString_number (QDate_year dt) @ ''_'' @ QString_number (QDate_month dt) @
         ''_'' @ QString_number (QDate_day dt) @ ''.'' @ e"
proof -
  let ?y = "QString_number (QDate_year dt)"
  let ?m = "QString_number (QDate_month dt)"
  let ?d = "QString_number (QDate_day dt)"
  have s1: "QString_arg ''%1_%2_%3_%4.%5'' b = b @ ''_%2_%3_%4.%5''"
    by (rule template_steps)
  have s2: "QString_arg (b @ ''_%2_%3_%4.%5'') ?y = b @ ''_'' @ ?y @ ''_%3_%4.%5''"
    using QString_arg_prefix[OF assms(2), of "''_%2_%3_%4.%5''" ?y] unfolding template_steps .
  have p3: "CHR ''%'' \<notin> set (b @ ''_'' @ ?y)"
    using assms(2) by (simp add: QString_number_no_percent)
  have s3: "QString_arg ((b @ ''_'' @ ?y) @ ''_%3_%4.%5'') ?m = (b @ ''_'' @ ?y) @ ''_'' @ ?m @ ''_%4.%5''"
    using QString_arg_prefix[OF p3, of "''_%3_%4.%5''" ?m] unfolding template_steps .
  have p4: "CHR ''%'' \<notin> set (b @ ''_'' @ ?y @ ''_'' @ ?m)"
    using assms(2) by (simp add: QString_number_no_percent)
  have s4: "QString_arg ((b @ ''_'' @ ?y @ ''_'' @ ?m) @ ''_%4.%5'') ?d =
            (b @ ''_'' @ ?y @ ''_'' @ ?m) @ ''_'' @ ?d @ ''.%5''"
    using QString_arg_prefix[OF p4, of "''_%4.%5''" ?d] unfolding template_steps .
  have p5: "CHR ''%'' \<notin> set (b @ ''_'' @ ?y @ ''_'' @ ?m @ ''_'' @ ?d)"
    using assms(2) by (simp add: QString_number_no_percent)
  have s5: "QString_arg ((b @ ''_'' @ ?y @ ''_'' @ ?m @ ''_'' @ ?d) @ ''.%5'') e =
            (b @ ''_'' @ ?y @ ''_'' @ ?m @ ''_'' @ ?d) @ ''.'' @ e"
    using QString_arg_prefix[OF p5, of "''.%5''" e] unfolding template_steps .
  have len: "\<not> length (b # e # rest) < 2" by simp
  have "calc_filename name dt =
        QString_arg (QString_arg (QString_arg (QString_arg (QString_arg ''%1_%2_%3_%4.%5'' b) ?y) ?m) ?d) e"
    unfolding calc_filename_def Let_def QString_arg_int_def assms(1) using len by simp
  also have "\<dots> = (b @ ''_'' @ ?y @ ''_'' @ ?m @ ''_'' @ ?d) @ ''.'' @ e"
    using s2 s3 s4 s5 by (simp add: s1)
  finally show ?thesis by simp
qed

text \<open>The shift loop runs the rounds for \<open>i\<close>, \<open>i - 1\<close>, ..., 1 in this order.\<close>

lemma shift_up_fold: "shift_up s i w = fold (shift_one s) (rev [1..i]) w"
proof (induction s i w rule: shift_up.induct)
  case (1 s i w)
  show ?case
  proof (cases "1 \<le> i")
    case True
    have "[1..i] = [1..i - 1] @ [i]" using True by (simp add: upto_rec2)
    then have "fold (shift_one s) (rev [1..i]) w =
               fold (shift_one s) (rev [1..i - 1]) (shift_one s i w)"
      by simp
    moreover have "shift_up s i w = shift_up s (i - 1) (shift_one s i w)"
      using True by (subst shift_up.simps) simp
    ultimately show ?thesis using "1.IH"[OF True] by simp
  next
    case False
    then show ?thesis by (subst shift_up.simps) simp
  qed
qed

text \<open>The scan from index 1: with the backups \<open>1 .. k\<close> present and \<open>k + 1\<close> missing or
  beyond the count it answers \<open>min k (mBackupsCount - 1)\<close>, whatever exists further up.\<close>

lemma find_last_backup_run:
  assumes "1 \<le> mBackupsCount s" "0 \<le> k" "k \<le> mBackupsCount s"
    and "\<forall>j. 1 \<le> j \<and> j \<le> k \<longrightarrow> QFile_exists w (backupName s j)"
    and "k = mBackupsCount s \<or> \<not> QFile_exists w (backupName s (k + 1))"
  shows "find_last_backup w s 1 0 = min k (mBackupsCount s - 1)"
proof -
  have "find_last_backup w s 1 0 = (if k < 1 then 0 else min k (mBackupsCount s - 1))"
    using assms by (intro find_last_backup_scan) auto
  then show ?thesis using assms(1,2) by auto
qed

text \<open>More example states, field by field.\<close>

lemma s_three_fields:
  "mFileName s_three = ''app.log''" "mBackupsCount s_three = 3"
  "mMaxSizeInBytes s_three = 3" "mCurrentSizeInBytes s_three = 3"
  by (simp_all add: s_three_def)

lemma d_three_fields:
  "mRotationStrategy d_three = s_three" "fileName (mFile d_three) = ''app.log''"
  by (simp_all add: d_three_def)

lemma w_full_fields:
  "locked w_full = {}"
  "lookup w_full ''app.log'' = Some \<lparr>content = ''old'', lastModified = 7\<rparr>"
  "lookup w_full ''app.log.1'' = Some \<lparr>content = ''one'', lastModified = 6\<rparr>"
  "lookup w_full ''app.log.2'' = Some \<lparr>content = ''two'', lastModified = 5\<rparr>"
  "lookup w_full ''app.log.3'' = None"
  by (simp_all add: w_full_def lookup_def resolve_def)

lemma app_log_backups:
  "mFileName s = ''app.log'' \<Longrightarrow> backupName s j = ''app.log.'' @ QString_number j"
  "QString_number 1 = ''1''" "QString_number 2 = ''2''" "QString_number 3 = ''3''"
  by (simp_all add: backupName_plain QString_number_def digits.simps digit_char_def)

section \<open>The claims\<close>

text \<open>
  C1, as the code has it. Let \<open>T\<close> be the stored deadline. A call of \<open>shouldRotate()\<close>
  made at or before \<open>T\<close> answers false and leaves the deadline as it is; a call made
  after \<open>T\<close> answers true and stores as deadline \<open>rotationHour:rotationMinute:00\<close> of the
  day after the day on which \<open>next_rotation_tp\<close> reads the clock, which lies strictly
  after that reading and is \<open>T\<close> plus one day when the clock is read on the day of \<open>T\<close>.
  So in a sequence of calls of which some are made at or before \<open>T\<close>, the next one after
  \<open>T\<close> and the rest at or before the new deadline, exactly that one answers true.
  \<open>setInitialInfo\<close> computes the first deadline in the same way.
\<close>

theorem daily_rotation_once:
  assumes "0 \<le> rotation_hour s" "rotation_hour s < 24"
    and "0 \<le> rotation_minute s" "rotation_minute s < 60"
    and "valid_dt nowdt"
  shows "(\<not> QDateTime_gt nowTime (rotation_tp s) \<longrightarrow> Daily_shouldRotate nowTime nowdt s = (False, s)) \<and>
         (QDateTime_gt nowTime (rotation_tp s) \<longrightarrow>
            Daily_shouldRotate nowTime nowdt s =
              (True, s\<lparr>rotation_tp := next_rotation_tp nowdt (rotation_hour s) (rotation_minute s)\<rparr>)) \<and>
         next_rotation_tp nowdt (rotation_hour s) (rotation_minute s) =
           \<lparr>julianDay = julianDay nowdt + 1,
            msecsOfDay = (rotation_hour s * 3600 + rotation_minute s * 60) * 1000\<rparr> \<and>
         QDateTime_gt (next_rotation_tp nowdt (rotation_hour s) (rotation_minute s)) nowdt \<and>
         (julianDay nowdt = julianDay (rotation_tp s) \<and>
          msecsOfDay (rotation_tp s) = (rotation_hour s * 3600 + rotation_minute s * 60) * 1000 \<longrightarrow>
            next_rotation_tp nowdt (rotation_hour s) (rotation_minute s) =
              QDateTime_addDays (rotation_tp s) 1) \<and>
         ((\<forall>x\<in>set before. \<not> QDateTime_gt (fst x) (rotation_tp s)) \<and>
          QDateTime_gt nowTime (rotation_tp s) \<and>
          (\<forall>x\<in>set later. \<not> QDateTime_gt (fst x)
                (next_rotation_tp nowdt (rotation_hour s) (rotation_minute s))) \<longrightarrow>
            Daily_calls (before @ (nowTime, nowdt) # later) s =
              (replicate (length before) False @ True # replicate (length later) False,
               s\<lparr>rotation_tp := next_rotation_tp nowdt (rotation_hour s) (rotation_minute s)\<rparr>)) \<and>
         rotation_tp (Daily_setInitialInfo nowdt f s) =
           next_rotation_tp nowdt (rotation_hour s) (rotation_minute s)"
proof -
  let ?T' = "next_rotation_tp nowdt (rotation_hour s) (rotation_minute s)"
  have a: "\<not> QDateTime_gt nowTime (rotation_tp s) \<longrightarrow> Daily_shouldRotate nowTime nowdt s = (False, s)"
    by (simp add: Daily_shouldRotate_def)
  have b: "QDateTime_gt nowTime (rotation_tp s) \<longrightarrow>
            Daily_shouldRotate nowTime nowdt s = (True, s\<lparr>rotation_tp := ?T'\<rparr>)"
    by (simp add: Daily_shouldRotate_def)
  have c: "?T' = \<lparr>julianDay = julianDay nowdt + 1,
            msecsOfDay = (rotation_hour s * 3600 + rotation_minute s * 60) * 1000\<rparr>"
    by (rule next_rotation_tp_valid[OF assms(1-4)])
  have d: "QDateTime_gt ?T' nowdt"
    by (rule next_rotation_tp_ahead[OF assms(5)])
  have e: "julianDay nowdt = julianDay (rotation_tp s) \<and>
          msecsOfDay (rotation_tp s) = (rotation_hour s * 3600 + rotation_minute s * 60) * 1000 \<longrightarrow>
            ?T' = QDateTime_addDays (rotation_tp s) 1"
    by (simp add: c QDateTime_addDays_def)
  have g: "Daily_calls (before @ (nowTime, nowdt) # later) s =
              (replicate (length before) False @ True # replicate (length later) False,
               s\<lparr>rotation_tp := ?T'\<rparr>)"
    if b1: "\<forall>x\<in>set before. \<not> QDateTime_gt (fst x) (rotation_tp s)"
      and b2: "QDateTime_gt nowTime (rotation_tp s)"
      and b3: "\<forall>x\<in>set later. \<not> QDateTime_gt (fst x) ?T'"
  proof -
    have l: "Daily_calls later (s\<lparr>rotation_tp := ?T'\<rparr>) =
             (replicate (length later) False, s\<lparr>rotation_tp := ?T'\<rparr>)"
      using b3 by (intro Daily_calls_not_due) simp
    show ?thesis
      using b b2 l by (simp add: Daily_calls_append Daily_calls_not_due[OF b1])
  qed
  have i: "rotation_tp (Daily_setInitialInfo nowdt f s) = ?T'"
    by (simp add: Daily_setInitialInfo_def)
  from a b c d e g i show ?thesis by blast
qed

theorem daily_rotation_once_witness:
  "Daily_calls
     [(QDateTime_of 2024 3 6 10800000, QDateTime_of 2024 3 6 10800000),
      (QDateTime_of 2024 3 6 12600000, QDateTime_of 2024 3 6 12600000),
      (QDateTime_of 2024 3 6 12600001, QDateTime_of 2024 3 6 12600002),
      (QDateTime_of 2024 3 6 82800000, QDateTime_of 2024 3 6 82800000),
      (QDateTime_of 2024 3 7 12600000, QDateTime_of 2024 3 7 12600000)] s_daily =
     ([False, False, True, False, False], s_daily\<lparr>rotation_tp := QDateTime_of 2024 3 7 12600000\<rparr>)"
proof -
  let ?before = "[(QDateTime_of 2024 3 6 10800000, QDateTime_of 2024 3 6 10800000),
      (QDateTime_of 2024 3 6 12600000, QDateTime_of 2024 3 6 12600000)]"
  let ?later = "[(QDateTime_of 2024 3 6 82800000, QDateTime_of 2024 3 6 82800000),
      (QDateTime_of 2024 3 7 12600000, QDateTime_of 2024 3 7 12600000)]"
  have f: "rotation_hour s_daily = 3" "rotation_minute s_daily = 30"
    "rotation_tp s_daily = QDateTime_of 2024 3 6 12600000"
    by (simp_all add: s_daily_def)
  have h: "0 \<le> rotation_hour s_daily" "rotation_hour s_daily < 24"
    "0 \<le> rotation_minute s_daily" "rotation_minute s_daily < 60"
    "valid_dt (QDateTime_of 2024 3 6 12600002)"
    by (simp_all add: f valid_dt_def QDateTime_of_def)
  have n: "next_rotation_tp (QDateTime_of 2024 3 6 12600002) 3 30 = QDateTime_of 2024 3 7 12600000"
    by (simp add: next_rotation_tp_def QDateTime_addDays_def QDateTime_setTime_def QTime_setHMS_def
        QDateTime_of_def julianDayFromDate_def)
  note t = daily_rotation_once[OF h, of "QDateTime_of 2024 3 6 12600001" ?before ?later,
      THEN conjunct2, THEN conjunct2, THEN conjunct2, THEN conjunct2, THEN conjunct2, THEN conjunct1,
      unfolded f n]
  have p: "(\<forall>x\<in>set ?before. \<not> QDateTime_gt (fst x) (QDateTime_of 2024 3 6 12600000)) \<and>
      QDateTime_gt (QDateTime_of 2024 3 6 12600001) (QDateTime_of 2024 3 6 12600000) \<and>
      (\<forall>x\<in>set ?later. \<not> QDateTime_gt (fst x) (QDateTime_of 2024 3 7 12600000))"
    by (simp add: QDateTime_gt_def toMSecs_def QDateTime_of_def julianDayFromDate_def)
  from t p show ?thesis by (simp add: numeral_2_eq_2)
qed

text \<open>The deadline of \<open>s_daily\<close> is 2024-03-06, 03:30:00.000. A call made exactly then
  answers false and leaves the deadline: the comparison is strict.\<close>

theorem daily_rotation_at_deadline_counterexample:
  "Daily_shouldRotate (QDateTime_of 2024 3 6 12600000) (QDateTime_of 2024 3 6 12600000) s_daily =
     (False, s_daily)"
  by (simp add: Daily_shouldRotate_def QDateTime_gt_def s_daily_def)

text \<open>
  C2, as the code has it. A destination with \<open>mBackupsCount = N\<close>, \<open>N \<ge> 1\<close>, on a file
  system without locked paths, with a log name without percent sign and no backup
  beyond \<open>.N\<close> to begin with. After any sequence of calls of \<open>write\<close>, rotating or not, no
  backup beyond \<open>.N\<close> exists. When the messages are each longer than
  \<open>mMaxSizeInBytes\<close>, so that every \<open>write\<close> rotates, then afterwards the log file holds
  the last message, and the backups \<open>.1\<close>, \<open>.2\<close>, ... up to the number of rotations or
  \<open>N\<close> hold what was rotated, the most recent in \<open>.1\<close>. For one call of \<open>rotate\<close>: the
  scan stops at the first missing backup, so with \<open>.1\<close> .. \<open>.k\<close> present and \<open>.(k+1)\<close>
  missing or beyond \<open>N\<close> it answers \<open>min k (N - 1)\<close>, and never more than \<open>N - 1\<close>;
  afterwards the log file is gone, \<open>.1\<close> is the log file as it was, and every backup up
  to the scan's answer is found one index higher, unharmed; the shift loop runs its
  rounds for the scan's answer down to 1, in this order; and the backups are named by
  appending a dot and the index.
\<close>

theorem backup_chain_bounded:
  assumes "1 \<le> mBackupsCount (mRotationStrategy d)"
    and "locked w = {}" and "CHR ''%'' \<notin> set (mFileName (mRotationStrategy d))"
    and "fileName (mFile d) = mFileName (mRotationStrategy d)"
    and "\<forall>m\<in>set msgs. mMaxSizeInBytes (mRotationStrategy d) < int (length m)"
    and "0 \<le> mCurrentSizeInBytes (mRotationStrategy d)"
    and "content_of w (mFileName (mRotationStrategy d)) = Some c"
    and "\<forall>j. mBackupsCount (mRotationStrategy d) < j \<longrightarrow> lookup w (backupName (mRotationStrategy d) j) = None"
  shows "rotation_tests msgs (d, w) = replicate (length msgs) True \<and>
         content_of (snd (FileDestination_writes msgs (d, w))) (mFileName (mRotationStrategy d)) =
           Some (last (c # map (\<lambda>m. m @ endl) msgs)) \<and>
         (\<forall>j. 1 \<le> j \<and> j \<le> min (int (length msgs)) (mBackupsCount (mRotationStrategy d)) \<longrightarrow>
              content_of (snd (FileDestination_writes msgs (d, w))) (backupName (mRotationStrategy d) j) =
                Some (rev (butlast (c # map (\<lambda>m. m @ endl) msgs)) ! nat (j - 1))) \<and>
         (\<forall>j. mBackupsCount (mRotationStrategy d) < j \<longrightarrow>
              lookup (snd (FileDestination_writes msgs (d, w))) (backupName (mRotationStrategy d) j) = None) \<and>
         (\<forall>ms j. mBackupsCount (mRotationStrategy d) < j \<longrightarrow>
              lookup (snd (FileDestination_writes ms (d, w))) (backupName (mRotationStrategy d) j) = None) \<and>
         (\<forall>k. 0 \<le> k \<and> k \<le> mBackupsCount (mRotationStrategy d) \<and>
              (\<forall>j. 1 \<le> j \<and> j \<le> k \<longrightarrow> QFile_exists w (backupName (mRotationStrategy d) j)) \<and>
              (k = mBackupsCount (mRotationStrategy d) \<or>
               \<not> QFile_exists w (backupName (mRotationStrategy d) (k + 1))) \<longrightarrow>
              find_last_backup w (mRotationStrategy d) 1 0 =
                min k (mBackupsCount (mRotationStrategy d) - 1)) \<and>
         0 \<le> find_last_backup w (mRotationStrategy d) 1 0 \<and>
         find_last_backup w (mRotationStrategy d) 1 0 \<le> mBackupsCount (mRotationStrategy d) - 1 \<and>
         lookup (Size_rotate (mRotationStrategy d) w) (mFileName (mRotationStrategy d)) = None \<and>
         lookup (Size_rotate (mRotationStrategy d) w) (backupName (mRotationStrategy d) 1) =
           lookup w (mFileName (mRotationStrategy d)) \<and>
         (\<forall>j. 1 \<le> j \<and> j \<le> find_last_backup w (mRotationStrategy d) 1 0 \<longrightarrow>
              lookup (Size_rotate (mRotationStrategy d) w) (backupName (mRotationStrategy d) (j + 1)) =
                lookup w (backupName (mRotationStrategy d) j)) \<and>
         (\<forall>i. shift_up (mRotationStrategy d) i w =
              fold (shift_one (mRotationStrategy d)) (rev [1..i]) w) \<and>
         (\<forall>j. backupName (mRotationStrategy d) j =
              mFileName (mRotationStrategy d) @ ''.'' @ QString_number j)"
proof -
  let ?s = "mRotationStrategy d"
  have n0: "mBackupsCount ?s \<noteq> 0" using assms(1) by simp
  have ch: "chain ?s w c []"
    using assms(7,8) by (auto simp: chain_def)
  have tr: "rotation_tests msgs (d, w) = replicate (length msgs) True \<and>
         chain ?s (snd (FileDestination_writes msgs (d, w)))
           (last (c # map (\<lambda>m. m @ endl) msgs))
           (rev (butlast (c # map (\<lambda>m. m @ endl) msgs)) @ [])"
    by (rule writes_chain[OF assms(5,6,1,2,3,4) ch])
  have len: "int (length (rev (butlast (c # map (\<lambda>m. m @ endl) msgs)))) = int (length msgs)"
    by simp
  have rng: "0 \<le> find_last_backup w ?s 1 0 \<and> find_last_backup w ?s 1 0 \<le> mBackupsCount ?s - 1"
    using find_last_backup_range[of 0 1 ?s w] assms(1) by simp
  have scan: "\<forall>k. 0 \<le> k \<and> k \<le> mBackupsCount ?s \<and>
              (\<forall>j. 1 \<le> j \<and> j \<le> k \<longrightarrow> QFile_exists w (backupName ?s j)) \<and>
              (k = mBackupsCount ?s \<or> \<not> QFile_exists w (backupName ?s (k + 1))) \<longrightarrow>
              find_last_backup w ?s 1 0 = min k (mBackupsCount ?s - 1)"
    using find_last_backup_run[OF assms(1)] by blast
  have sh: "\<forall>i. shift_up ?s i w = fold (shift_one ?s) (rev [1..i]) w"
    by (simp add: shift_up_fold)
  have nn: "0 \<le> mBackupsCount ?s" using assms(1) by simp
  have any: "\<forall>ms j. mBackupsCount ?s < j \<longrightarrow>
      lookup (snd (FileDestination_writes ms (d, w))) (backupName ?s j) = None"
    using writes_top[OF nn assms(2,3,4,8)] by blast
  have mv: "\<forall>j. 1 \<le> j \<and> j \<le> find_last_backup w ?s 1 0 \<longrightarrow>
      lookup (Size_rotate ?s w) (backupName ?s (j + 1)) = lookup w (backupName ?s j)"
    using Size_rotate_moves[OF n0 assms(2,3)] by blast
  have nmz: "\<forall>j. backupName ?s j = mFileName ?s @ ''.'' @ QString_number j"
    using backupName_plain[OF assms(3)] by blast
  from tr have tr1: "rotation_tests msgs (d, w) = replicate (length msgs) True"
    and tr2: "content_of (snd (FileDestination_writes msgs (d, w))) (mFileName ?s) =
           Some (last (c # map (\<lambda>m. m @ endl) msgs))"
    and tr3: "\<forall>j. 1 \<le> j \<and> j \<le> min (int (length msgs)) (mBackupsCount ?s) \<longrightarrow>
              content_of (snd (FileDestination_writes msgs (d, w))) (backupName ?s j) =
                Some (rev (butlast (c # map (\<lambda>m. m @ endl) msgs)) ! nat (j - 1))"
    and tr4: "\<forall>j. mBackupsCount ?s < j \<longrightarrow>
              lookup (snd (FileDestination_writes msgs (d, w))) (backupName ?s j) = None"
    unfolding chain_def append_Nil2 len by blast+
  show ?thesis
    using tr1 tr2 tr3 tr4 any scan rng Size_rotate_log_gone[OF assms(2,3)]
      Size_rotate_first_backup[OF n0 assms(2,3)] mv sh nmz
    by (intro conjI) blast+
qed

theorem backup_chain_bounded_witness:
  "rotation_tests [''aaaa'', ''bbbbb'', ''cccccc''] (d_two, w_log) = [True, True, True] \<and>
   content_of (snd (FileDestination_writes [''aaaa'', ''bbbbb'', ''cccccc''] (d_two, w_log))) ''app.log'' = Some (''cccccc'' @ endl) \<and>
   content_of (snd (FileDestination_writes [''aaaa'', ''bbbbb'', ''cccccc''] (d_two, w_log))) ''app.log.1'' = Some (''bbbbb'' @ endl) \<and>
   content_of (snd (FileDestination_writes [''aaaa'', ''bbbbb'', ''cccccc''] (d_two, w_log))) ''app.log.2'' = Some (''aaaa'' @ endl) \<and>
   lookup (snd (FileDestination_writes [''aaaa'', ''bbbbb'', ''cccccc''] (d_two, w_log))) ''app.log.3'' = None \<and>
   find_last_backup w_log s_two 1 0 = 0 \<and>
   find_last_backup w_full s_two 1 0 = 1 \<and>
   find_last_backup w_full s_three 1 0 = 2 \<and>
   lookup (Size_rotate s_three w_full) ''app.log'' = None \<and>
   lookup (Size_rotate s_three w_full) ''app.log.1'' = Some \<lparr>content = ''old'', lastModified = 7\<rparr> \<and>
   lookup (Size_rotate s_three w_full) ''app.log.2'' = Some \<lparr>content = ''one'', lastModified = 6\<rparr> \<and>
   lookup (Size_rotate s_three w_full) ''app.log.3'' = Some \<lparr>content = ''two'', lastModified = 5\<rparr>"
proof -
  note b2 = app_log_backups(1)[OF s_two_fields(1)]
  note b3 = app_log_backups(1)[OF s_three_fields(1)]
  note q = app_log_backups(2,3,4)
  have top_log: "\<forall>j. mBackupsCount (mRotationStrategy d_two) < j \<longrightarrow>
      lookup w_log (backupName (mRotationStrategy d_two) j) = None"
    by (simp add: d_two_fields b2 w_log_def lookup_def resolve_def)
  have top_full2: "\<forall>j. mBackupsCount (mRotationStrategy d_two) < j \<longrightarrow>
      lookup w_full (backupName (mRotationStrategy d_two) j) = None"
  proof (intro allI impI)
    fix j :: int assume "mBackupsCount (mRotationStrategy d_two) < j"
    then have j: "2 < j" by (simp add: d_two_fields s_two_fields)
    then have "QString_number j \<noteq> ''1''" "QString_number j \<noteq> ''2''"
      using QString_number_inj[of j 1] QString_number_inj[of j 2] by (auto simp: q)
    then show "lookup w_full (backupName (mRotationStrategy d_two) j) = None"
      by (simp add: d_two_fields b2 w_full_def lookup_def resolve_def)
  qed
  have top_full3: "\<forall>j. mBackupsCount (mRotationStrategy d_three) < j \<longrightarrow>
      lookup w_full (backupName (mRotationStrategy d_three) j) = None"
  proof (intro allI impI)
    fix j :: int assume "mBackupsCount (mRotationStrategy d_three) < j"
    then have j: "3 < j" by (simp add: d_three_fields s_three_fields)
    then have "QString_number j \<noteq> ''1''" "QString_number j \<noteq> ''2''"
      using QString_number_inj[of j 1] QString_number_inj[of j 2] by (auto simp: q)
    then show "lookup w_full (backupName (mRotationStrategy d_three) j) = None"
      by (simp add: d_three_fields b3 w_full_def lookup_def resolve_def)
  qed
  have hA: "1 \<le> mBackupsCount (mRotationStrategy d_two)" "locked w_log = {}"
    "CHR ''%'' \<notin> set (mFileName (mRotationStrategy d_two))"
    "fileName (mFile d_two) = mFileName (mRotationStrategy d_two)"
    "\<forall>m\<in>set [''aaaa'', ''bbbbb'', ''cccccc'']. mMaxSizeInBytes (mRotationStrategy d_two) < int (length m)"
    "0 \<le> mCurrentSizeInBytes (mRotationStrategy d_two)"
    "content_of w_log (mFileName (mRotationStrategy d_two)) = Some ''old''"
    by (simp_all add: d_two_fields s_two_fields w_log_fields content_of_def)
  have hB: "locked w_full = {}"
    "\<forall>m\<in>set ([] :: string list). mMaxSizeInBytes (mRotationStrategy d_two) < int (length m)"
    "content_of w_full (mFileName (mRotationStrategy d_two)) = Some ''old''"
    by (simp_all add: d_two_fields s_two_fields w_full_fields content_of_def)
  have hC: "1 \<le> mBackupsCount (mRotationStrategy d_three)"
    "CHR ''%'' \<notin> set (mFileName (mRotationStrategy d_three))"
    "fileName (mFile d_three) = mFileName (mRotationStrategy d_three)"
    "\<forall>m\<in>set ([] :: string list). mMaxSizeInBytes (mRotationStrategy d_three) < int (length m)"
    "0 \<le> mCurrentSizeInBytes (mRotationStrategy d_three)"
    "content_of w_full (mFileName (mRotationStrategy d_three)) = Some ''old''"
    by (simp_all add: d_three_fields s_three_fields w_full_fields content_of_def)
  note A = backup_chain_bounded[OF hA top_log, unfolded d_two_fields s_two_fields]
  note B = backup_chain_bounded[OF hA(1) hB(1) hA(3,4) hB(2) hA(6) hB(3) top_full2,
      unfolded d_two_fields s_two_fields]
  note C = backup_chain_bounded[OF hC(1) hB(1) hC(2,3,4,5,6) top_full3,
      unfolded d_three_fields s_three_fields]
  have c1: "rotation_tests [''aaaa'', ''bbbbb'', ''cccccc''] (d_two, w_log) = [True, True, True]"
    using A[THEN conjunct1] by (simp add: numeral_3_eq_3)
  have c2: "content_of (snd (FileDestination_writes [''aaaa'', ''bbbbb'', ''cccccc''] (d_two, w_log))) ''app.log'' = Some (''cccccc'' @ endl)"
    using A[THEN conjunct2, THEN conjunct1] by simp
  have c3: "content_of (snd (FileDestination_writes [''aaaa'', ''bbbbb'', ''cccccc''] (d_two, w_log))) ''app.log.1'' = Some (''bbbbb'' @ endl)"
    using A[THEN conjunct2, THEN conjunct2, THEN conjunct1, rule_format, of 1] by (simp add: b2 q)
  have c4: "content_of (snd (FileDestination_writes [''aaaa'', ''bbbbb'', ''cccccc''] (d_two, w_log))) ''app.log.2'' = Some (''aaaa'' @ endl)"
    using A[THEN conjunct2, THEN conjunct2, THEN conjunct1, rule_format, of 2] by (simp add: b2 q)
  have c5: "lookup (snd (FileDestination_writes [''aaaa'', ''bbbbb'', ''cccccc''] (d_two, w_log))) ''app.log.3'' = None"
    using A[THEN conjunct2, THEN conjunct2, THEN conjunct2, THEN conjunct1, rule_format, of 3] by (simp add: b2 q)
  have c6: "find_last_backup w_log s_two 1 0 = 0"
    using A[THEN conjunct2, THEN conjunct2, THEN conjunct2, THEN conjunct2, THEN conjunct2, THEN conjunct1, rule_format, of 0]
    by (simp add: b2 q QFile_exists_def w_log_def lookup_def resolve_def)
  have c7: "find_last_backup w_full s_two 1 0 = 1"
  proof -
    have "\<forall>j. 1 \<le> j \<and> j \<le> 2 \<longrightarrow> QFile_exists w_full (backupName s_two j)"
    proof (intro allI impI)
      fix j :: int assume "1 \<le> j \<and> j \<le> 2"
      then have "j = 1 \<or> j = 2" by arith
      then show "QFile_exists w_full (backupName s_two j)"
        by (auto simp: b2 q QFile_exists_def w_full_fields)
    qed
    then show ?thesis using B[THEN conjunct2, THEN conjunct2, THEN conjunct2, THEN conjunct2, THEN conjunct2, THEN conjunct1, rule_format, of 2] by simp
  qed
  have c8: "find_last_backup w_full s_three 1 0 = 2"
  proof -
    have "\<forall>j. 1 \<le> j \<and> j \<le> 2 \<longrightarrow> QFile_exists w_full (backupName s_three j)"
    proof (intro allI impI)
      fix j :: int assume "1 \<le> j \<and> j \<le> 2"
      then have "j = 1 \<or> j = 2" by arith
      then show "QFile_exists w_full (backupName s_three j)"
        by (auto simp: b3 q QFile_exists_def w_full_fields)
    qed
    moreover have "\<not> QFile_exists w_full (backupName s_three 3)"
      by (simp add: b3 q QFile_exists_def w_full_fields)
    ultimately show ?thesis using C[THEN conjunct2, THEN conjunct2, THEN conjunct2, THEN conjunct2, THEN conjunct2, THEN conjunct1, rule_format, of 2] by simp
  qed
  have c9: "lookup (Size_rotate s_three w_full) ''app.log'' = None"
    using C[THEN conjunct2, THEN conjunct2, THEN conjunct2, THEN conjunct2, THEN conjunct2, THEN conjunct2, THEN conjunct2, THEN conjunct2, THEN conjunct1] by simp
  have c10: "lookup (Size_rotate s_three w_full) ''app.log.1'' = Some \<lparr>content = ''old'', lastModified = 7\<rparr>"
    using C[THEN conjunct2, THEN conjunct2, THEN conjunct2, THEN conjunct2, THEN conjunct2, THEN conjunct2, THEN conjunct2, THEN conjunct2, THEN conjunct2, THEN conjunct1] by (simp add: b3 q w_full_fields)
  have c11: "lookup (Size_rotate s_three w_full) ''app.log.2'' = Some \<lparr>content = ''one'', lastModified = 6\<rparr>"
    using C[THEN conjunct2, THEN conjunct2, THEN conjunct2, THEN conjunct2, THEN conjunct2, THEN conjunct2, THEN conjunct2, THEN conjunct2, THEN conjunct2, THEN conjunct2, THEN conjunct1, rule_format, of 1] c8 by (simp add: b3 q w_full_fields)
  have c12: "lookup (Size_rotate s_three w_full) ''app.log.3'' = Some \<lparr>content = ''two'', lastModified = 5\<rparr>"
    using C[THEN conjunct2, THEN conjunct2, THEN conjunct2, THEN conjunct2, THEN conjunct2, THEN conjunct2, THEN conjunct2, THEN conjunct2, THEN conjunct2, THEN conjunct2, THEN conjunct1, rule_format, of 2] c8 by (simp add: b3 q w_full_fields)
  from c1 c2 c3 c4 c5 c6 c7 c8 c9 c10 c11 c12 show ?thesis by blast
qed

text \<open>
  Where the claim as it was written fails. With \<open>app.log.2\<close> and \<open>app.log.3\<close> present and
  \<open>app.log.1\<close> missing, the scan stops at once and answers 0, not the highest existing
  backup, and the rotation shifts nothing. With the log name \<open>a%1.log\<close> the index
  replaces the place marker in the name too: the backups are \<open>a1.log.1\<close> and
  \<open>a2.log.2\<close>, and no \<open>a%1.log.1\<close> is made.
\<close>

theorem backup_scan_and_names_counterexample:
  "mBackupsCount s_three = 3 \<and>
   QFile_exists w_gap ''app.log.2'' \<and> QFile_exists w_gap ''app.log.3'' \<and>
   backupName s_three 2 = ''app.log.2'' \<and> backupName s_three 3 = ''app.log.3'' \<and>
   find_last_backup w_gap s_three 1 0 = 0 \<and>
   content_of (Size_rotate s_three w_gap) ''app.log.2'' = Some ''two'' \<and>
   content_of (Size_rotate s_three w_gap) ''app.log.3'' = Some ''three'' \<and>
   mFileName s_marker = ''a%1.log'' \<and>
   backupName s_marker 1 = ''a1.log.1'' \<and> backupName s_marker 2 = ''a2.log.2'' \<and>
   content_of w_marker ''a%1.log'' = Some ''old'' \<and>
   lookup (Size_rotate s_marker w_marker) ''a%1.log.1'' = None \<and>
   content_of (Size_rotate s_marker w_marker) ''a1.log.1'' = Some ''old''"
  by code_simp

text \<open>
  C3. For a destination whose file is open and on disk, and messages whose byte
  lengths, added to the strategy's count, stay within \<open>mMaxSizeInBytes\<close>: no call of
  \<open>write\<close> finds \<open>shouldRotate()\<close> true, the file keeps its content and gains every message
  followed by the line terminator, in the order written, and nothing else changes.
\<close>

theorem writes_within_limit_append:
  assumes "isOpen (mFile d)" "lookup w (fileName (mFile d)) = Some x"
    and "mCurrentSizeInBytes (mRotationStrategy d) + (\<Sum>m\<leftarrow>msgs. int (length m))
           \<le> mMaxSizeInBytes (mRotationStrategy d)"
  shows "rotation_tests msgs (d, w) = replicate (length msgs) False \<and>
         content_of (snd (FileDestination_writes msgs (d, w))) (fileName (mFile d)) =
           Some (content x @ concat (map (\<lambda>m. m @ endl) msgs)) \<and>
         (\<forall>y. y \<noteq> resolve w (fileName (mFile d)) \<longrightarrow>
              map_of (files (snd (FileDestination_writes msgs (d, w)))) y = map_of (files w) y) \<and>
         cerr (snd (FileDestination_writes msgs (d, w))) = cerr w"
  using writes_below_threshold[OF assms] by simp

theorem writes_within_limit_append_witness:
  "rotation_tests [''ab'', ''c''] (d_roomy, w_log) = [False, False] \<and>
   content_of (snd (FileDestination_writes [''ab'', ''c''] (d_roomy, w_log))) ''app.log''
     = Some (''old'' @ ''ab'' @ endl @ ''c'' @ endl) \<and>
   cerr (snd (FileDestination_writes [''ab'', ''c''] (d_roomy, w_log))) = []"
proof -
  have h1: "isOpen (mFile d_roomy)" by (rule d_roomy_fields)
  have h2: "lookup w_log (fileName (mFile d_roomy)) = Some \<lparr>content = ''old'', lastModified = 7\<rparr>"
    by (simp only: d_roomy_fields w_log_fields)
  have h3: "mCurrentSizeInBytes (mRotationStrategy d_roomy) + (\<Sum>m\<leftarrow>[''ab'', ''c'']. int (length m))
           \<le> mMaxSizeInBytes (mRotationStrategy d_roomy)"
    by (simp add: d_roomy_fields)
  note t = writes_within_limit_append[OF h1 h2 h3, unfolded d_roomy_fields w_log_fields]
  have "replicate (length [''ab'', ''c'']) False = [False, False]" by (simp add: numeral_2_eq_2)
  with t show ?thesis by simp
qed

text \<open>
  C4. \<open>shouldRotate()\<close> is true exactly when \<open>mCurrentSizeInBytes > mMaxSizeInBytes\<close>, and
  \<open>write\<close> tests it after the length of the message was added. When the test is true
  (no path locked, no place marker in the log name), the log file holds afterwards the
  message and its line terminator and nothing else, and with a backup count other than
  0 the file \<open>.1\<close> is the old log file, as it was before the message.
\<close>

theorem triggering_message_in_new_file:
  "Size_shouldRotate s = (mMaxSizeInBytes s < mCurrentSizeInBytes s) \<and>
   rotation_tests [m] (d, w) =
     [mMaxSizeInBytes (mRotationStrategy d) < mCurrentSizeInBytes (mRotationStrategy d) + int (length m)] \<and>
   (mMaxSizeInBytes (mRotationStrategy d) < mCurrentSizeInBytes (mRotationStrategy d) + int (length m) \<and>
    locked w = {} \<and> CHR ''%'' \<notin> set (mFileName (mRotationStrategy d)) \<and>
    fileName (mFile d) = mFileName (mRotationStrategy d) \<longrightarrow>
      content_of (snd (FileDestination_write m (d, w))) (fileName (mFile d)) = Some (m @ endl) \<and>
      (mBackupsCount (mRotationStrategy d) \<noteq> 0 \<longrightarrow>
         lookup (snd (FileDestination_write m (d, w))) (fileName (mFile d) @ ''.1'') =
           lookup w (fileName (mFile d))))"
proof -
  let ?s1 = "Size_includeMessageInCalculation m (mRotationStrategy d)"
  have a: "Size_shouldRotate s = (mMaxSizeInBytes s < mCurrentSizeInBytes s)"
    by (simp add: Size_shouldRotate_def)
  have b: "rotation_tests [m] (d, w) =
     [mMaxSizeInBytes (mRotationStrategy d) < mCurrentSizeInBytes (mRotationStrategy d) + int (length m)]"
    by (simp add: Size_shouldRotate_def Size_includeMessageInCalculation_def)
  have c: "content_of (snd (FileDestination_write m (d, w))) (fileName (mFile d)) = Some (m @ endl) \<and>
      (mBackupsCount (mRotationStrategy d) \<noteq> 0 \<longrightarrow>
         lookup (snd (FileDestination_write m (d, w))) (fileName (mFile d) @ ''.1'') =
           lookup w (fileName (mFile d)))"
    if t: "mMaxSizeInBytes (mRotationStrategy d) < mCurrentSizeInBytes (mRotationStrategy d) + int (length m)"
      and u: "locked w = {}" and p: "CHR ''%'' \<notin> set (mFileName (mRotationStrategy d))"
      and nm: "fileName (mFile d) = mFileName (mRotationStrategy d)"
  proof -
    have t': "Size_shouldRotate ?s1"
      using t by (simp add: Size_shouldRotate_def Size_includeMessageInCalculation_def)
    note id = FileDestination_write_ideal[OF t' u p nm]
    have r: "\<And>x. resolve (snd (FileDestination_write m (d, w))) x = resolve w x"
      using id(9) by (simp add: resolve_def)
    have c1: "content_of (snd (FileDestination_write m (d, w))) (fileName (mFile d)) = Some (m @ endl)"
      by (simp add: content_of_def lookup_def r id(1))
    have ne: "resolve w (fileName (mFile d) @ ''.1'') \<noteq> resolve w (fileName (mFile d))"
      using resolve_append_dot[of w "fileName (mFile d)" "''1''"] by simp
    have c2: "lookup (snd (FileDestination_write m (d, w))) (fileName (mFile d) @ ''.1'') =
           lookup w (fileName (mFile d))" if n: "mBackupsCount (mRotationStrategy d) \<noteq> 0"
    proof -
      have n1: "mBackupsCount ?s1 \<noteq> 0" using n by simp
      have p1: "CHR ''%'' \<notin> set (mFileName ?s1)" using p by simp
      have "lookup (Size_rotate ?s1 w) (backupName ?s1 1) = lookup w (mFileName ?s1)"
        by (rule Size_rotate_first_backup[OF n1 u p1])
      then have "lookup (Size_rotate ?s1 w) (fileName (mFile d) @ ''.1'') = lookup w (fileName (mFile d))"
        using backupName_1[OF p] nm by simp
      then show ?thesis
        using ne by (simp add: lookup_def r id(1))
    qed
    from c1 c2 show ?thesis by blast
  qed
  from a b c show ?thesis by blast
qed

theorem triggering_message_in_new_file_witness:
  "Size_shouldRotate s_two = False \<and>
   rotation_tests [''aaaa''] (d_two, w_log) = [True] \<and>
   content_of (snd (FileDestination_write ''aaaa'' (d_two, w_log))) ''app.log'' = Some (''aaaa'' @ endl) \<and>
   lookup (snd (FileDestination_write ''aaaa'' (d_two, w_log))) ''app.log.1'' =
     Some \<lparr>content = ''old'', lastModified = 7\<rparr>"
proof -
  note t = triggering_message_in_new_file[of s_two "''aaaa''" d_two w_log,
      unfolded d_two_fields s_two_fields w_log_fields]
  then show ?thesis by simp
qed

text \<open>
  C5. \<open>rotate\<close> lists the log directory but hands the bare names of the list to
  \<open>QFile::remove\<close>, which resolves them against the working directory. With the 35
  dated files in \<open>/var/log\<close> and the working directory \<open>/srv/app\<close> all 35 are listed and
  none is removed; only when the working directory is the log directory do exactly
  the 29 most recently modified remain.
\<close>

theorem daily_retention_removes_in_cwd:
  "length (entryList w_35 ''/var/log'' ''*.log'') = 35 \<and>
   files (Daily_rotate (QDateTime_of 2024 3 5 0) s_daily w_35) = files w_35 \<and>
   map fst (files (Daily_rotate (QDateTime_of 2024 3 5 0) s_daily (w_35\<lparr>cwd := ''/var/log''\<rparr>))) =
     map (fst \<circ> dated_log) [7..<36]"
  by code_simp

text \<open>
  C6. \<open>calc_filename\<close> puts the date, without zero padding, before the first dot of the
  name and keeps of the rest only what stands between the first and the second dot
  (\<open>calc_filename_parts\<close>): \<open>app.log\<close> and \<open>app\<close> give what the claim says, but a name with
  a second dot loses its final extension, and a path with a dot in a directory is cut
  there.
\<close>

theorem calc_filename_second_dot:
  "calc_filename ''app.log'' (QDateTime_of 2024 3 5 0) = ''app_2024_3_5.log'' \<and>
   calc_filename ''app'' (QDateTime_of 2024 3 5 0) = ''app_2024_3_5.'' \<and>
   calc_filename ''app.tar.gz'' (QDateTime_of 2024 3 5 0) = ''app_2024_3_5.tar'' \<and>
   calc_filename ''./logs/app.log'' (QDateTime_of 2024 3 5 0) = ''_2024_3_5./logs/app''"
  by code_simp

text \<open>
  C7. With \<open>mBackupsCount = 0\<close>, \<open>rotate\<close> only removes the log file: afterwards the log
  file is gone unless its removal failed, no other path has changed, so no file is
  created and a missing \<open>.1\<close> stays missing; when the removal fails (the file is locked or
  is not there) the function returns the state it was given with one line more on
  \<open>std::cerr\<close>.
\<close>

theorem Size_rotate_without_backups:
  assumes "mBackupsCount s = 0"
  shows "(resolve w (mFileName s) \<notin> locked w \<longrightarrow> lookup (Size_rotate s w) (mFileName s) = None) \<and>
         (\<forall>x. x \<noteq> resolve w (mFileName s) \<longrightarrow>
              map_of (files (Size_rotate s w)) x = map_of (files w) x) \<and>
         (lookup w (mFileName s @ ''.1'') = None \<longrightarrow>
              lookup (Size_rotate s w) (mFileName s @ ''.1'') = None) \<and>
         (resolve w (mFileName s) \<notin> locked w \<and> lookup w (mFileName s) \<noteq> None \<longrightarrow>
              cerr (Size_rotate s w) = cerr w) \<and>
         (resolve w (mFileName s) \<in> locked w \<or> lookup w (mFileName s) = None \<longrightarrow>
              Size_rotate s w =
                w\<lparr>cerr := cerr w @ ''QsLog: backup delete failed '' @ mFileName s\<rparr>)"
proof -
  let ?P = "resolve w (mFileName s)"
  have r: "\<And>x. resolve (Size_rotate s w) x = resolve w x" by simp
  have ne: "resolve w (mFileName s @ ''.1'') \<noteq> ?P"
    using resolve_append_dot[of w "mFileName s" "''1''"] by simp
  show ?thesis
    using ne unfolding lookup_def r
    by (auto simp: Size_rotate_none[OF assms] lookup_def delete_conv' report_def)
qed

theorem Size_rotate_without_backups_witness:
  "lookup (Size_rotate (SizeRotationStrategy_new\<lparr>mFileName := ''app.log''\<rparr>) w_log) ''app.log'' = None \<and>
   lookup (Size_rotate (SizeRotationStrategy_new\<lparr>mFileName := ''app.log''\<rparr>) w_log) ''app.log.1'' = None \<and>
   cerr (Size_rotate (SizeRotationStrategy_new\<lparr>mFileName := ''app.log''\<rparr>) w_log) = [] \<and>
   Size_rotate (SizeRotationStrategy_new\<lparr>mFileName := ''app.log''\<rparr>) (w_log\<lparr>locked := {''/tmp/app.log''}\<rparr>) =
     w_log\<lparr>locked := {''/tmp/app.log''}, cerr := ''QsLog: backup delete failed app.log''\<rparr>"
  using Size_rotate_without_backups[of "SizeRotationStrategy_new\<lparr>mFileName := ''app.log''\<rparr>" w_log]
    Size_rotate_without_backups[of "SizeRotationStrategy_new\<lparr>mFileName := ''app.log''\<rparr>"
      "w_log\<lparr>locked := {''/tmp/app.log''}\<rparr>"]
  by (simp add: SizeRotationStrategy_new_def w_log_def lookup_def resolve_def)

text \<open>
  C8. After the constructor and after the rotation inside \<open>write\<close>, before the message is
  put, \<open>mCurrentSizeInBytes\<close> is the size of the file of the destination's handle as it
  then stands on disk; with no locked path and a log name without place markers the
  rotation leaves that file open and empty and the count 0.
\<close>

theorem currentSize_is_size_of_reopened_file:
  "mCurrentSizeInBytes (mRotationStrategy (fst (FileDestination_new filePath s w))) =
     (case content_of (snd (FileDestination_new filePath s w)) filePath of
        None \<Rightarrow> 0 | Some c \<Rightarrow> int (length c)) \<and>
   mCurrentSizeInBytes (mRotationStrategy (fst (FileDestination_rotate d w))) =
     (case content_of (snd (FileDestination_rotate d w)) (fileName (mFile d)) of
        None \<Rightarrow> 0 | Some c \<Rightarrow> int (length c)) \<and>
   (Size_shouldRotate (Size_includeMessageInCalculation m (mRotationStrategy d)) \<longrightarrow>
      FileDestination_write m (d, w) =
        (fst (FileDestination_rotate
                (d\<lparr>mRotationStrategy := Size_includeMessageInCalculation m (mRotationStrategy d)\<rparr>) w),
         QTextStream_put (mFile (fst (FileDestination_rotate
                (d\<lparr>mRotationStrategy := Size_includeMessageInCalculation m (mRotationStrategy d)\<rparr>) w)))
           (m @ endl)
           (snd (FileDestination_rotate
                (d\<lparr>mRotationStrategy := Size_includeMessageInCalculation m (mRotationStrategy d)\<rparr>) w)))) \<and>
   (locked w = {} \<and> CHR ''%'' \<notin> set (mFileName (mRotationStrategy d)) \<and>
    fileName (mFile d) = mFileName (mRotationStrategy d) \<longrightarrow>
      isOpen (mFile (fst (FileDestination_rotate d w))) \<and>
      content_of (snd (FileDestination_rotate d w)) (fileName (mFile d)) = Some [] \<and>
      mCurrentSizeInBytes (mRotationStrategy (fst (FileDestination_rotate d w))) = 0)"
proof -
  have a: "mCurrentSizeInBytes (mRotationStrategy (fst (FileDestination_new filePath s w))) =
     (case content_of (snd (FileDestination_new filePath s w)) filePath of
        None \<Rightarrow> 0 | Some c \<Rightarrow> int (length c))"
    by (simp add: FileDestination_new_def Let_def split_def Size_setInitialInfo_def QFile_size_def
        content_of_def QFile_of_def split: option.splits)
  have b: "mCurrentSizeInBytes (mRotationStrategy (fst (FileDestination_rotate d w))) =
     (case content_of (snd (FileDestination_rotate d w)) (fileName (mFile d)) of
        None \<Rightarrow> 0 | Some c \<Rightarrow> int (length c))"
    by (simp add: FileDestination_rotate_def Let_def split_def Size_setInitialInfo_def QFile_size_def
        content_of_def QFile_close_def split: option.splits)
  have c: "locked w = {} \<and> CHR ''%'' \<notin> set (mFileName (mRotationStrategy d)) \<and>
    fileName (mFile d) = mFileName (mRotationStrategy d) \<longrightarrow>
      isOpen (mFile (fst (FileDestination_rotate d w))) \<and>
      content_of (snd (FileDestination_rotate d w)) (fileName (mFile d)) = Some [] \<and>
      mCurrentSizeInBytes (mRotationStrategy (fst (FileDestination_rotate d w))) = 0"
    using FileDestination_rotate_ideal[of w d]
    by (simp add: content_of_def lookup_def)
  show ?thesis
    using a b c FileDestination_write_rotating[of m d w] by blast
qed

theorem currentSize_is_size_of_reopened_file_witness:
  "mCurrentSizeInBytes (mRotationStrategy (fst (FileDestination_new ''app.log'' s_two w_log))) = 3 \<and>
   isOpen (mFile (fst (FileDestination_rotate d_two w_log))) \<and>
   content_of (snd (FileDestination_rotate d_two w_log)) ''app.log'' = Some [] \<and>
   mCurrentSizeInBytes (mRotationStrategy (fst (FileDestination_rotate d_two w_log))) = 0"
proof -
  have c: "content_of (snd (FileDestination_new ''app.log'' s_two w_log)) ''app.log'' = Some ''old''"
    by (simp add: FileDestination_new_def QFile_open_def QFile_of_def Let_def w_log_def
        content_of_def lookup_def resolve_def truncates_def Size_recommendedOpenModeFlag_def)
  note t = currentSize_is_size_of_reopened_file[of "''app.log''" s_two w_log d_two "''aaaa''",
      unfolded d_two_fields s_two_fields w_log_fields c]
  then show ?thesis by simp
qed

text \<open>
  C9. For every non-negative argument \<open>n\<close>, \<open>setBackupCount n\<close> stores \<open>min n 10\<close> and
  changes nothing else, in a debug and in a release build, so the stored count lies
  between 0 and \<open>MaxBackupCount = 10\<close>; a negative argument fails the assertion of the
  debug build, which ends the process: no error is returned to the caller.
\<close>

theorem setBackupCount_clamps:
  "(0 \<le> n \<longrightarrow>
      setBackupCount b n s = Inr (s\<lparr>mBackupsCount := min n 10\<rparr>) \<and>
      0 \<le> min n 10 \<and> min n 10 \<le> MaxBackupCount \<and> MaxBackupCount = 10) \<and>
   (n < 0 \<longrightarrow> setBackupCount Debug n s = Inl (Assertion_failed ''backups >= 0''))"
  by (simp add: setBackupCount_def MaxBackupCount_def)

theorem setBackupCount_clamps_witness:
  "setBackupCount Release 15 SizeRotationStrategy_new =
     Inr (SizeRotationStrategy_new\<lparr>mBackupsCount := 10\<rparr>) \<and>
   setBackupCount Debug 3 SizeRotationStrategy_new =
     Inr (SizeRotationStrategy_new\<lparr>mBackupsCount := 3\<rparr>) \<and>
   setBackupCount Debug (- 1) SizeRotationStrategy_new = Inl (Assertion_failed ''backups >= 0'')"
  using setBackupCount_clamps[of 15 Release SizeRotationStrategy_new]
    setBackupCount_clamps[of 3 Debug SizeRotationStrategy_new]
    setBackupCount_clamps[of "- 1" Debug SizeRotationStrategy_new]
  by simp

text \<open>
  C10. The constructor of \<open>DailyFileDestination\<close> opens the dated name of the day with
  \<open>WriteOnly | Text\<close> alone: unless the path is locked, the file is open in that mode and
  empty afterwards, whatever it held. The strategy recommends \<open>Append\<close>, and only the
  reopening inside a rotating \<open>write\<close> uses it: the file of the new dated name keeps what
  it held after \<open>rotate\<close> and gains the message. A \<open>write\<close> that does not rotate leaves the
  handle as it is.
\<close>

theorem daily_constructor_truncates:
  "(resolve w (calc_filename filePath t_name) \<notin> locked w \<longrightarrow>
      fileName (mFileD (fst (DailyFileDestination_new t_info t_name filePath s w))) =
        calc_filename filePath t_name \<and>
      isOpen (mFileD (fst (DailyFileDestination_new t_info t_name filePath s w))) \<and>
      openMode (mFileD (fst (DailyFileDestination_new t_info t_name filePath s w))) = {WriteOnly, Text} \<and>
      content_of (snd (DailyFileDestination_new t_info t_name filePath s w))
        (calc_filename filePath t_name) = Some []) \<and>
   Daily_recommendedOpenModeFlag = {Append} \<and>
   (QDateTime_gt nowTime (rotation_tp (mRotationStrategyD d)) \<and>
    resolve w (calc_filename (mFileNameD (mRotationStrategyD d)) t_name) \<notin> locked w \<longrightarrow>
      fileName (mFileD (fst (DailyFileDestination_write nowTime nowdt t_rotate t_name message (d, w)))) =
        calc_filename (mFileNameD (mRotationStrategyD d)) t_name \<and>
      openMode (mFileD (fst (DailyFileDestination_write nowTime nowdt t_rotate t_name message (d, w)))) =
        {WriteOnly, Text, Append} \<and>
      content_of (snd (DailyFileDestination_write nowTime nowdt t_rotate t_name message (d, w)))
        (calc_filename (mFileNameD (mRotationStrategyD d)) t_name) =
        Some ((case content_of (Daily_rotate t_rotate (mRotationStrategyD d) w)
                      (calc_filename (mFileNameD (mRotationStrategyD d)) t_name) of
                 None \<Rightarrow> [] | Some c \<Rightarrow> c) @ message @ endl)) \<and>
   (\<not> QDateTime_gt nowTime (rotation_tp (mRotationStrategyD d)) \<longrightarrow>
      mFileD (fst (DailyFileDestination_write nowTime nowdt t_rotate t_name message (d, w))) = mFileD d)"
proof -
  have a: "fileName (mFileD (fst (DailyFileDestination_new t_info t_name filePath s w))) =
        calc_filename filePath t_name \<and>
      isOpen (mFileD (fst (DailyFileDestination_new t_info t_name filePath s w))) \<and>
      openMode (mFileD (fst (DailyFileDestination_new t_info t_name filePath s w))) = {WriteOnly, Text} \<and>
      content_of (snd (DailyFileDestination_new t_info t_name filePath s w))
        (calc_filename filePath t_name) = Some []"
    if u: "resolve w (calc_filename filePath t_name) \<notin> locked w"
  proof -
    let ?n = "calc_filename filePath t_name"
    let ?o = "QFile_open {WriteOnly, Text} (QFile_of ?n) w"
    have c: "\<not> isOpen (QFile_of ?n)" "fileName (QFile_of ?n) = ?n" by (simp_all add: QFile_of_def)
    have l: "resolve w (fileName (QFile_of ?n)) \<notin> locked w" using u c by simp
    have ok: "fst ?o" using c l by (simp add: open_result)
    have h: "fst (snd ?o) = (QFile_of ?n)\<lparr>isOpen := True, openMode := {WriteOnly, Text}\<rparr>"
      by (rule open_handle[OF c(1) l])
    have f: "map_of (files (snd (snd ?o))) (resolve w ?n) = Some \<lparr>content = [], lastModified = osTime w\<rparr>"
      using open_files[OF c(1) l, of "{WriteOnly, Text}"] c(2)
      by (simp add: truncates_def split: option.splits)
    have n: "Daily_getFileName t_name (Daily_setInitialInfo t_info (QFile_of filePath) s) = ?n"
      by (simp add: Daily_getFileName_def Daily_setInitialInfo_def QFile_of_def)
    show ?thesis
      using ok h f c
      by (simp add: DailyFileDestination_new_def Let_def split_def n content_of_def lookup_def)
  qed
  have b: "Daily_recommendedOpenModeFlag = {Append}" by (simp add: Daily_recommendedOpenModeFlag_def)
  have c: "fileName (mFileD (fst (DailyFileDestination_write nowTime nowdt t_rotate t_name message (d, w)))) =
        calc_filename (mFileNameD (mRotationStrategyD d)) t_name \<and>
      openMode (mFileD (fst (DailyFileDestination_write nowTime nowdt t_rotate t_name message (d, w)))) =
        {WriteOnly, Text, Append} \<and>
      content_of (snd (DailyFileDestination_write nowTime nowdt t_rotate t_name message (d, w)))
        (calc_filename (mFileNameD (mRotationStrategyD d)) t_name) =
        Some ((case content_of (Daily_rotate t_rotate (mRotationStrategyD d) w)
                      (calc_filename (mFileNameD (mRotationStrategyD d)) t_name) of
                 None \<Rightarrow> [] | Some c \<Rightarrow> c) @ message @ endl)"
    if g: "QDateTime_gt nowTime (rotation_tp (mRotationStrategyD d))"
      and u: "resolve w (calc_filename (mFileNameD (mRotationStrategyD d)) t_name) \<notin> locked w"
  proof -
    let ?s = "mRotationStrategyD d"
    let ?s1 = "?s\<lparr>rotation_tp := next_rotation_tp nowdt (rotation_hour ?s) (rotation_minute ?s)\<rparr>"
    let ?n = "calc_filename (mFileNameD ?s) t_name"
    let ?w1 = "Daily_rotate t_rotate ?s1 w"
    let ?f1 = "(QFile_close (mFileD d))\<lparr>fileName := ?n\<rparr>"
    define mode where "mode = {WriteOnly, Text} \<union> Daily_recommendedOpenModeFlag"
    have md: "insert WriteOnly (insert Text Daily_recommendedOpenModeFlag) = mode"
      "mode = {WriteOnly, Text, Append}" "\<not> truncates mode"
      by (auto simp: mode_def truncates_def Daily_recommendedOpenModeFlag_def)
    let ?o = "QFile_open mode ?f1 ?w1"
    have same: "Daily_rotate t_rotate ?s1 w = Daily_rotate t_rotate ?s w"
      by (simp add: Daily_rotate_def Daily_getFileName_def)
    have sr: "Daily_shouldRotate nowTime nowdt ?s = (True, ?s1)"
      using g by (simp add: Daily_shouldRotate_def)
    have c: "\<not> isOpen ?f1" "fileName ?f1 = ?n" by (simp_all add: QFile_close_def)
    have l: "resolve ?w1 (fileName ?f1) \<notin> locked ?w1" using u c by simp
    have ok: "fst ?o" using c l by (simp add: open_result)
    have h: "fst (snd ?o) = ?f1\<lparr>isOpen := True, openMode := mode\<rparr>"
      by (rule open_handle[OF c(1) l])
    let ?x = "case map_of (files ?w1) (resolve w ?n) of
              None \<Rightarrow> \<lparr>content = [], lastModified = osTime w\<rparr> | Some old \<Rightarrow> old"
    have f: "map_of (files (snd (snd ?o))) = (map_of (files ?w1))(resolve w ?n \<mapsto> ?x)"
      using open_files[OF c(1) l, of mode] c(2)
      by (simp add: md(3) cong: option.case_cong)
    have rot: "DailyFileDestination_rotate t_rotate t_name (d\<lparr>mRotationStrategyD := ?s1\<rparr>) w =
          (d\<lparr>mRotationStrategyD := ?s1, mFileD := fst (snd ?o)\<rparr>, snd (snd ?o))"
      using ok by (simp add: DailyFileDestination_rotate_def Let_def split_def Daily_getFileName_def md(1))
    have wr: "DailyFileDestination_write nowTime nowdt t_rotate t_name message (d, w) =
          (d\<lparr>mRotationStrategyD := ?s1, mFileD := fst (snd ?o)\<rparr>,
           QTextStream_put (fst (snd ?o)) (message @ endl) (snd (snd ?o)))"
      by (simp add: DailyFileDestination_write_def Let_def sr rot)
    have lk: "lookup (snd (snd ?o)) (fileName (fst (snd ?o))) = Some ?x"
      using c(2) by (simp add: lookup_def f h)
    have op: "isOpen (fst (snd ?o))" by (simp add: h)
    have pf: "map_of (files (QTextStream_put (fst (snd ?o)) (message @ endl) (snd (snd ?o))))
          (resolve w ?n) = Some (?x\<lparr>content := content ?x @ message @ endl, lastModified := osTime w\<rparr>)"
      using put_files[OF op lk, of "message @ endl"] c(2) by (simp add: h)
    have cx: "content ?x = (case content_of ?w1 ?n of None \<Rightarrow> [] | Some c \<Rightarrow> c)"
      by (simp add: content_of_def lookup_def split: option.splits)
    have r1: "fileName (mFileD (fst (DailyFileDestination_write nowTime nowdt t_rotate t_name message (d, w)))) = ?n"
      using c(2) by (simp add: wr h)
    have r2: "openMode (mFileD (fst (DailyFileDestination_write nowTime nowdt t_rotate t_name message (d, w)))) =
        {WriteOnly, Text, Append}"
      using md(2) unfolding wr h by simp
    have r3: "content_of (snd (DailyFileDestination_write nowTime nowdt t_rotate t_name message (d, w))) ?n =
        Some ((case content_of (Daily_rotate t_rotate ?s w) ?n of None \<Rightarrow> [] | Some c \<Rightarrow> c) @ message @ endl)"
      using pf cx by (simp add: wr content_of_def lookup_def same)
    from r1 r2 r3 show ?thesis by blast
  qed
  have e: "mFileD (fst (DailyFileDestination_write nowTime nowdt t_rotate t_name message (d, w))) = mFileD d"
    if "\<not> QDateTime_gt nowTime (rotation_tp (mRotationStrategyD d))"
    using that by (simp add: DailyFileDestination_write_def Daily_shouldRotate_def Let_def)
  from a b c e show ?thesis by blast
qed

theorem daily_constructor_truncates_witness:
  "content_of w_dated ''app_2024_3_5.log'' = Some ''keep'' \<and>
   content_of (snd dw_dated) ''app_2024_3_5.log'' = Some [] \<and>
   openMode (mFileD (fst dw_dated)) = {WriteOnly, Text} \<and>
   openMode (mFileD (fst (DailyFileDestination_write (QDateTime_of 2024 3 6 1) (QDateTime_of 2024 3 6 1)
       (QDateTime_of 2024 3 6 1) (QDateTime_of 2024 3 6 1) ''hello'' dw_dated))) = {WriteOnly, Text, Append} \<and>
   content_of (snd (DailyFileDestination_write (QDateTime_of 2024 3 6 1) (QDateTime_of 2024 3 6 1)
       (QDateTime_of 2024 3 6 1) (QDateTime_of 2024 3 6 1) ''hello'' dw_dated)) ''app_2024_3_6.log''
     = Some (''prior'' @ ''hello'' @ endl)"
proof -
  let ?t0 = "QDateTime_of 2024 3 5 36000000"
  let ?t1 = "QDateTime_of 2024 3 6 1"
  have e0: "calc_filename ''app.log'' ?t0 = ''app_2024_3_5.log''" by code_simp
  have e1: "calc_filename (mFileNameD (mRotationStrategyD (fst dw_dated))) ?t1 = ''app_2024_3_6.log''"
    by code_simp
  have e2: "QDateTime_gt ?t1 (rotation_tp (mRotationStrategyD (fst dw_dated)))" by code_simp
  have e3: "resolve (snd dw_dated) ''app_2024_3_6.log'' \<notin> locked (snd dw_dated)" by code_simp
  have e4: "content_of (Daily_rotate ?t1 (mRotationStrategyD (fst dw_dated)) (snd dw_dated))
      ''app_2024_3_6.log'' = Some ''prior''" by code_simp
  have e5: "resolve w_dated ''app_2024_3_5.log'' \<notin> locked w_dated" by code_simp
  have e6: "content_of w_dated ''app_2024_3_5.log'' = Some ''keep''" by code_simp
  note a = daily_constructor_truncates[where w = w_dated and filePath = "''app.log''"
      and t_name = ?t0 and t_info = ?t0 and s = DailyRotationStrategy_new,
      THEN conjunct1, unfolded e0 dw_dated_def[symmetric]]
  note b = daily_constructor_truncates[where w = "snd dw_dated" and d = "fst dw_dated"
      and t_name = ?t1 and t_rotate = ?t1 and nowTime = ?t1 and nowdt = ?t1 and message = "''hello''",
      THEN conjunct2, THEN conjunct2, THEN conjunct1, unfolded e1 prod.collapse]
  from a b e2 e3 e4 e5 e6 show ?thesis by simp
qed

end
